theory Spec2Isabelle
  imports Complex_Main
begin

section \<open>The streaming CLI wrapper of \<^verbatim>\<open>scripts/test_cc_cli_multiplex.py\<close>\<close>

text \<open>
  The class \<^verbatim>\<open>ClaudeCLIWrapper\<close> drives a child process over three pipes. Its methods
  are embedded as functions on a record of the object's fields. Everything the methods
  observe but do not decide (the wall clock, what \<^verbatim>\<open>Popen.poll\<close> finds, whether a
  write to the pipe succeeds, which lines the reader thread has read) is an explicit
  argument, so that each method is a function of the wrapper and of what the environment
  showed it.

  A Python \<^verbatim>\<open>str\<close> is a \<^typ>\<open>string\<close>; each \<^typ>\<open>char\<close> is read as one code point
  below 256.
\<close>

subsection \<open>JSON values\<close>

text \<open>
  What \<^verbatim>\<open>json.loads\<close> returns: \<^verbatim>\<open>None\<close>, a bool, an int, a float, a str, a list or a
  dict with string keys. A dict is an association list in insertion order, looked up with
  \<^const>\<open>map_of\<close>. The wrapper never computes with a float, which is carried as the text
  the encoder prints for it.
\<close>

datatype json =
    JNull
  | JBool bool
  | JInt int
  | JFloat string
  | JStr string
  | JList "json list"
  | JDict "(string \<times> json) list"

text \<open>\<^verbatim>\<open>d.get(key, default)\<close>; Python's \<^verbatim>\<open>d.get(key)\<close> is \<open>get d key JNull\<close>.\<close>

definition get :: "(string \<times> json) list \<Rightarrow> string \<Rightarrow> json \<Rightarrow> json" where
  "get d key dflt = (case map_of d key of None \<Rightarrow> dflt | Some v \<Rightarrow> v)"

subsection \<open>Strings\<close>

text \<open>\<^verbatim>\<open>str.isspace\<close> on one character, for the code points below 256.\<close>

definition isspace :: "char \<Rightarrow> bool" where
  "isspace c =
     (let n = (of_char c :: nat)
      in (9 \<le> n \<and> n \<le> 13) \<or> (28 \<le> n \<and> n \<le> 32) \<or> n = 133 \<or> n = 160)"

text \<open>\<^verbatim>\<open>s.strip()\<close>: leading and trailing whitespace removed.\<close>

definition strip :: "string \<Rightarrow> string" where
  "strip s = rev (dropWhile isspace (rev (dropWhile isspace s)))"

definition newline :: char where
  "newline = CHR 0x0A"

text \<open>\<^verbatim>\<open>sep.join(xs)\<close>.\<close>

fun join :: "string \<Rightarrow> string list \<Rightarrow> string" where
  "join sep [] = []"
| "join sep [x] = x"
| "join sep (x # y # ys) = x @ sep @ join sep (y # ys)"

subsection \<open>\<^verbatim>\<open>json.dumps\<close> with its default arguments\<close>

text \<open>
  \<^verbatim>\<open>send_message\<close> serialises with \<^verbatim>\<open>json.dumps(payload)\<close>. The encoder is the standard
  library's; with the defaults (\<^verbatim>\<open>ensure_ascii=True\<close>, separators \<^verbatim>\<open>', '\<close> and
  \<^verbatim>\<open>': '\<close>, no indent) it behaves as follows. A string is quoted; backslash, the double
  quote and the five named control characters get their two-character escapes; every
  other character outside the range from space to tilde is written as a \<^verbatim>\<open>\u\<close> escape of
  four lower-case hex digits.
\<close>

definition hex4 :: "nat \<Rightarrow> string" where
  "hex4 n = map (\<lambda>k. ''0123456789abcdef'' ! ((n div 16 ^ k) mod 16)) [3, 2, 1, 0]"

definition backslash :: char where
  "backslash = CHR 0x5C"

definition dquote :: char where
  "dquote = CHR 0x22"

definition escape_ascii :: "char \<Rightarrow> string" where
  "escape_ascii c =
     (if c = backslash then [backslash, backslash]
      else if c = dquote then [backslash, dquote]
      else if c = CHR 0x08 then [backslash, CHR ''b'']
      else if c = CHR 0x0C then [backslash, CHR ''f'']
      else if c = CHR 0x0A then [backslash, CHR ''n'']
      else if c = CHR 0x0D then [backslash, CHR ''r'']
      else if c = CHR 0x09 then [backslash, CHR ''t'']
      else if 32 \<le> (of_char c :: nat) \<and> (of_char c :: nat) \<le> 126 then [c]
      else [backslash, CHR ''u''] @ hex4 (of_char c))"

definition encode_basestring_ascii :: "string \<Rightarrow> string" where
  "encode_basestring_ascii s = [dquote] @ concat (map escape_ascii s) @ [dquote]"

text \<open>\<^verbatim>\<open>int.__repr__\<close>: decimal digits, with a minus sign below zero.\<close>

fun repr_nat :: "nat \<Rightarrow> string" where
  "repr_nat n =
     (if n < 10 then [''0123456789'' ! n]
      else repr_nat (n div 10) @ [''0123456789'' ! (n mod 10)])"

definition repr_int :: "int \<Rightarrow> string" where
  "repr_int i = (if i < 0 then CHR ''-'' # repr_nat (nat (- i)) else repr_nat (nat i))"

fun dumps :: "json \<Rightarrow> string" where
  "dumps JNull = ''null''"
| "dumps (JBool b) = (if b then ''true'' else ''false'')"
| "dumps (JInt i) = repr_int i"
| "dumps (JFloat r) = r"
| "dumps (JStr s) = encode_basestring_ascii s"
| "dumps (JList xs) = ''['' @ join '', '' (map dumps xs) @ '']''"
| "dumps (JDict d) =
     ''{'' @ join '', '' (map (\<lambda>kv. encode_basestring_ascii (fst kv) @ '': '' @ dumps (snd kv)) d)
       @ ''}''"

declare repr_nat.simps [simp del]

subsection \<open>Exceptions, log records and the process handle\<close>

text \<open>
  The exceptions that can leave a method of the wrapper. \<^verbatim>\<open>BrokenPipeError\<close>,
  \<^verbatim>\<open>queue.Empty\<close> and \<^verbatim>\<open>json.JSONDecodeError\<close> are caught where they arise and are
  branches of the functions below, not values of this type.
\<close>

datatype exc =
    AttributeError
  | TypeError
  | ValueError
  | RecursionError
  | OSError
  | FileNotFoundError
  | TimeoutExpired nat

datatype 'a result = Return 'a | Raise exc

text \<open>
  One constructor per call of the module's \<^verbatim>\<open>logger\<close>, carrying the values the
  message is formatted from (the text itself is not modelled).
\<close>

datatype level = INFO | WARNING | ERROR

datatype message =
    StartingCLI string string
  | CannotSend
  | InjectStdin string
  | PipeBroken
  | WaitingForStream
  | TimedOut
  | ProcessExited int
  | ToolUse json json
  | ToolUseNested json json
  | ErrorEvent json
  | RequestDone json
  | NonJsonOutput string
  | StatusRunning
  | StatusDead int

text \<open>
  The \<^verbatim>\<open>subprocess.Popen\<close> object: its cached \<^verbatim>\<open>returncode\<close>, and the calls the
  wrapper has made on it that act on the child (writes and flushes of \<^verbatim>\<open>stdin\<close>,
  \<^verbatim>\<open>terminate()\<close>, \<^verbatim>\<open>wait(timeout)\<close>), in the order they were made.
\<close>

datatype popen_call = StdinWrite string | StdinFlush | Terminate | Wait nat

record popen =
  returncode :: "int option"
  calls :: "popen_call list"

text \<open>
  \<^verbatim>\<open>Popen.poll()\<close>: a cached exit code is returned as it is; otherwise the child is
  looked at, \<open>obs\<close> being what is found (\<open>None\<close> while it runs), and an exit code is cached.
\<close>

definition poll :: "int option \<Rightarrow> popen \<Rightarrow> int option \<times> popen" where
  "poll obs p =
     (case returncode p of
        Some c \<Rightarrow> (Some c, p)
      | None \<Rightarrow> (obs, p\<lparr>returncode := obs\<rparr>))"

definition terminate :: "popen \<Rightarrow> popen" where
  "terminate p = p\<lparr>calls := calls p @ [Terminate]\<rparr>"

text \<open>
  \<^verbatim>\<open>Popen.wait(timeout)\<close>: \<open>obs\<close> is the exit code when the child ends within
  \<open>timeout\<close> seconds, \<open>None\<close> when it does not, which raises \<^verbatim>\<open>TimeoutExpired\<close>.
\<close>

definition popen_wait :: "nat \<Rightarrow> int option \<Rightarrow> popen \<Rightarrow> int result \<times> popen" where
  "popen_wait timeout obs p =
     (let p = p\<lparr>calls := calls p @ [Wait timeout]\<rparr>
      in case returncode p of
           Some c \<Rightarrow> (Return c, p)
         | None \<Rightarrow>
             (case obs of
                Some c \<Rightarrow> (Return c, p\<lparr>returncode := Some c\<rparr>)
              | None \<Rightarrow> (Raise (TimeoutExpired timeout), p)))"

text \<open>What a write to, or a flush of, the child's \<^verbatim>\<open>stdin\<close> can do.\<close>

datatype io_outcome = IoOk | IoBrokenPipe | IoOtherError

subsection \<open>The wrapper object\<close>

text \<open>
  The fields set by \<^verbatim>\<open>__init__\<close>, followed by the two global sinks the methods write
  to: the records passed to \<^verbatim>\<open>logger\<close> and the text written to \<^verbatim>\<open>sys.stdout\<close>.
\<close>

record wrapper =
  session_id :: string
  process :: "popen option"
  stdout_queue :: "string list"
  stderr_queue :: "string list"
  running :: bool
  event_log :: "json list"
  logger :: "(level \<times> message) list"
  console :: string

definition log :: "level \<Rightarrow> message \<Rightarrow> wrapper \<Rightarrow> wrapper" where
  "log lvl msg s = s\<lparr>logger := logger s @ [(lvl, msg)]\<rparr>"

text \<open>
  \<^verbatim>\<open>__init__(session_id=None)\<close>: \<open>fresh\<close> is the value of \<^verbatim>\<open>str(uuid.uuid4())\<close>, used
  when no identifier, or an empty one, is given.
\<close>

definition init :: "string option \<Rightarrow> string \<Rightarrow> wrapper" where
  "init sid fresh =
     \<lparr>session_id = (case sid of None \<Rightarrow> fresh | Some i \<Rightarrow> if i = [] then fresh else i),
      process = None,
      stdout_queue = [],
      stderr_queue = [],
      running = False,
      event_log = [],
      logger = [],
      console = []\<rparr>"

text \<open>
  \<^verbatim>\<open>start(permission_mode)\<close>: \<open>launched\<close> tells whether \<^verbatim>\<open>subprocess.Popen\<close> could
  spawn the executable. The three threads it starts are not wrapper state; what the
  stdout reader does is \<open>reader_thread\<close> below.
\<close>

definition start :: "string \<Rightarrow> bool \<Rightarrow> wrapper \<Rightarrow> unit result \<times> wrapper" where
  "start permission_mode launched s =
     (let s = log INFO (StartingCLI (session_id s) permission_mode) s
      in if launched
         then (Return (), s\<lparr>process := Some \<lparr>returncode = None, calls = []\<rparr>, running := True\<rparr>)
         else (Raise FileNotFoundError, s))"

text \<open>
  \<^verbatim>\<open>_reader_thread\<close>, as the list of its \<^verbatim>\<open>q.put\<close> calls for the values
  \<^verbatim>\<open>pipe.readline\<close> returned: \<^verbatim>\<open>iter(pipe.readline, '')\<close> ends at the empty string
  (end of file), and each line before it, when it is not empty, is stripped and put on
  the queue. An exception of \<^verbatim>\<open>readline\<close> ends the thread and puts nothing.
\<close>

definition reader_thread :: "string list \<Rightarrow> string list" where
  "reader_thread lines =
     map strip (filter (\<lambda>line. line \<noteq> []) (takeWhile (\<lambda>line. line \<noteq> []) lines))"

subsection \<open>Sending\<close>

definition call_on :: "popen_call \<Rightarrow> wrapper \<Rightarrow> wrapper" where
  "call_on c s = s\<lparr>process := map_option (\<lambda>p. p\<lparr>calls := calls p @ [c]\<rparr>) (process s)\<rparr>"

text \<open>
  \<^verbatim>\<open>send_raw(payload_str)\<close>. \<open>polled\<close> is what \<^verbatim>\<open>poll()\<close> finds, \<open>write_obs\<close> and
  \<open>flush_obs\<close> what \<^verbatim>\<open>stdin.write\<close> and \<^verbatim>\<open>stdin.flush\<close> do. Only
  \<^verbatim>\<open>BrokenPipeError\<close> is caught.
\<close>

definition send_raw ::
  "int option \<Rightarrow> io_outcome \<Rightarrow> io_outcome \<Rightarrow> string \<Rightarrow> wrapper \<Rightarrow> bool result \<times> wrapper" where
  "send_raw polled write_obs flush_obs payload_str s =
     (case process s of
        None \<Rightarrow> (Return False, log ERROR CannotSend s)
      | Some p \<Rightarrow>
          (case poll polled p of
             (Some c, p') \<Rightarrow> (Return False, log ERROR CannotSend (s\<lparr>process := Some p'\<rparr>))
           | (None, p') \<Rightarrow>
               (let s = log INFO (InjectStdin payload_str) (s\<lparr>process := Some p'\<rparr>);
                    s = call_on (StdinWrite (payload_str @ [newline])) s
                in case write_obs of
                     IoBrokenPipe \<Rightarrow> (Return False, log ERROR PipeBroken s)
                   | IoOtherError \<Rightarrow> (Raise OSError, s)
                   | IoOk \<Rightarrow>
                       (let s = call_on StdinFlush s
                        in case flush_obs of
                             IoBrokenPipe \<Rightarrow> (Return False, log ERROR PipeBroken s)
                           | IoOtherError \<Rightarrow> (Raise OSError, s)
                           | IoOk \<Rightarrow> (Return True, s)))))"

text \<open>The object \<^verbatim>\<open>send_message(text)\<close> builds.\<close>

definition payload :: "string \<Rightarrow> json" where
  "payload text =
     JDict [(''type'', JStr ''user''),
            (''message'',
             JDict [(''role'', JStr ''user''),
                    (''content'', JList [JDict [(''type'', JStr ''text''), (''text'', JStr text)]])])]"

definition send_message ::
  "int option \<Rightarrow> io_outcome \<Rightarrow> io_outcome \<Rightarrow> string \<Rightarrow> wrapper \<Rightarrow> bool result \<times> wrapper" where
  "send_message polled write_obs flush_obs text s =
     send_raw polled write_obs flush_obs (dumps (payload text)) s"

subsection \<open>Liveness and shutdown\<close>

text \<open>\<^verbatim>\<open>check_status()\<close>; on a wrapper that was never started, \<^verbatim>\<open>None.poll\<close> raises.\<close>

definition check_status :: "int option \<Rightarrow> wrapper \<Rightarrow> bool result \<times> wrapper" where
  "check_status polled s =
     (case process s of
        None \<Rightarrow> (Raise AttributeError, s)
      | Some p \<Rightarrow>
          (case poll polled p of
             (None, p') \<Rightarrow> (Return True, log INFO StatusRunning (s\<lparr>process := Some p'\<rparr>))
           | (Some c, p') \<Rightarrow> (Return False, log ERROR (StatusDead c) (s\<lparr>process := Some p'\<rparr>))))"

text \<open>
  \<^verbatim>\<open>stop()\<close>: \<open>polled\<close> is what \<^verbatim>\<open>poll()\<close> finds, \<open>wait_obs\<close> what
  \<^verbatim>\<open>wait(timeout=5)\<close> finds after the terminate signal.
\<close>

definition stop :: "int option \<Rightarrow> int option \<Rightarrow> wrapper \<Rightarrow> unit result \<times> wrapper" where
  "stop polled wait_obs s =
     (let s = s\<lparr>running := False\<rparr>
      in case process s of
           None \<Rightarrow> (Return (), s)
         | Some p \<Rightarrow>
             (case poll polled p of
                (Some c, p') \<Rightarrow> (Return (), s\<lparr>process := Some p'\<rparr>)
              | (None, p') \<Rightarrow>
                  (case popen_wait 5 wait_obs (terminate p') of
                     (Return c, p'') \<Rightarrow> (Return (), s\<lparr>process := Some p''\<rparr>)
                   | (Raise e, p'') \<Rightarrow> (Raise e, s\<lparr>process := Some p''\<rparr>))))"

text \<open>One method call after another, an exception of the first ending the sequence.\<close>

definition seq ::
  "(wrapper \<Rightarrow> unit result \<times> wrapper) \<Rightarrow> (wrapper \<Rightarrow> unit result \<times> wrapper)
     \<Rightarrow> wrapper \<Rightarrow> unit result \<times> wrapper" where
  "seq f g s = (case f s of (Return u, s') \<Rightarrow> g s' | (Raise e, s') \<Rightarrow> (Raise e, s'))"

subsection \<open>Waiting for the result event\<close>

text \<open>
  Iterating a JSON value with \<^verbatim>\<open>for block in v\<close>: a list gives its elements, a str its
  characters, a dict its keys; anything else is not iterable.
\<close>

definition py_iter :: "json \<Rightarrow> exc + json list" where
  "py_iter v =
     (case v of
        JList xs \<Rightarrow> Inr xs
      | JStr str \<Rightarrow> Inr (map (\<lambda>c. JStr [c]) str)
      | JDict d \<Rightarrow> Inr (map (\<lambda>kv. JStr (fst kv)) d)
      | _ \<Rightarrow> Inl TypeError)"

text \<open>
  The body of the loop over the content blocks of an \<^verbatim>\<open>assistant\<close> or \<^verbatim>\<open>user\<close>
  message: \<^verbatim>\<open>block.get\<close> exists on a dict only.
\<close>

fun nested_blocks :: "json list \<Rightarrow> wrapper \<Rightarrow> unit result \<times> wrapper" where
  "nested_blocks [] s = (Return (), s)"
| "nested_blocks (block # blocks) s =
     (case block of
        JDict b \<Rightarrow>
          nested_blocks blocks
            (if get b ''type'' JNull = JStr ''tool_use''
             then log INFO (ToolUseNested (get b ''name'' JNull) (get b ''input'' JNull)) s
             else s)
      | _ \<Rightarrow> (Raise AttributeError, s))"

text \<open>
  Lines 113 to 130 of the source: the dispatch on \<^verbatim>\<open>event.get("type")\<close>, in the
  order of the \<^verbatim>\<open>if\<close>/\<^verbatim>\<open>elif\<close> chain. The value is \<open>Return True\<close> when the method
  returns from the \<^verbatim>\<open>result\<close> branch, \<open>Return False\<close> when the loop goes on, and
  \<open>Raise\<close> when a value that is not a dict is asked for \<^verbatim>\<open>.get\<close> or a value that is not
  iterable is iterated.
\<close>

definition handle_event :: "json \<Rightarrow> wrapper \<Rightarrow> bool result \<times> wrapper" where
  "handle_event event s =
     (case event of
        JDict d \<Rightarrow>
          (let e_type = get d ''type'' JNull
           in if e_type \<in> set [JStr ''thinking'', JStr ''status'']
              then (Return False, s\<lparr>console := console s @ ''.''\<rparr>)
              else if e_type = JStr ''tool_use''
              then (Return False, log INFO (ToolUse (get d ''name'' JNull) (get d ''input'' JNull)) s)
              else if e_type = JStr ''assistant'' \<or> e_type = JStr ''user''
              then (case get d ''message'' (JDict []) of
                      JDict m \<Rightarrow>
                        (case py_iter (get m ''content'' (JList [])) of
                           Inl e \<Rightarrow> (Raise e, s)
                         | Inr blocks \<Rightarrow>
                             (case nested_blocks blocks s of
                                (Return u, s') \<Rightarrow> (Return False, s')
                              | (Raise e, s') \<Rightarrow> (Raise e, s')))
                    | _ \<Rightarrow> (Raise AttributeError, s))
              else if e_type = JStr ''error''
              then (case get d ''error'' (JDict []) of
                      JDict err \<Rightarrow>
                        (Return False,
                         log ERROR (ErrorEvent (get err ''message'' (get d ''error'' JNull))) s)
                    | _ \<Rightarrow> (Raise AttributeError, s))
              else if e_type = JStr ''result''
              then (Return True,
                    log INFO (RequestDone (get d ''duration_ms'' (JInt 0)))
                      (s\<lparr>console := console s @ [newline]\<rparr>))
              else (Return False, s))
      | _ \<Rightarrow> (Raise AttributeError, s))"

text \<open>
  What \<^verbatim>\<open>json.loads(line)\<close> does with a line: it returns a value, or it raises
  \<^verbatim>\<open>JSONDecodeError\<close>, the one exception that line 131 of the source catches, or it
  raises another exception (\<^verbatim>\<open>RecursionError\<close> on input nested too deep,
  \<^verbatim>\<open>ValueError\<close> on an integer literal beyond the digit limit), which nothing in
  \<^verbatim>\<open>wait_for_result\<close> catches.
\<close>

datatype loads_outcome = Parsed json | JSONDecodeError | LoadsRaises exc

text \<open>
  What one pass of the \<^verbatim>\<open>while True\<close> loop is shown: the reading of \<^verbatim>\<open>time.time()\<close>,
  what \<^verbatim>\<open>poll()\<close> finds, and the lines the stdout reader thread has read since the
  pass before (\<^verbatim>\<open>stdout_queue.get(timeout=0.2)\<close> sees them on the queue).
\<close>

record tick =
  clock :: real
  poll_obs :: "int option"
  stdout_read :: "string list"

datatype step =
    Continue "json list" wrapper
  | Done "(bool \<times> json list) result" wrapper

text \<open>
  One pass of the loop of \<^verbatim>\<open>wait_for_result\<close> (lines 97 to 135), from the local
  \<open>events\<close> and the wrapper: the deadline check, the liveness check, the timed \<^verbatim>\<open>get\<close>
  (an empty queue is \<^verbatim>\<open>queue.Empty\<close>), \<^verbatim>\<open>json.loads\<close> and the dispatch. \<open>loads\<close> is the
  standard library's parser, with its three outcomes.
\<close>

definition iteration ::
  "(string \<Rightarrow> loads_outcome) \<Rightarrow> real \<Rightarrow> real \<Rightarrow> tick \<Rightarrow> json list \<Rightarrow> wrapper \<Rightarrow> step" where
  "iteration loads start_time timeout t events s =
     (let s = s\<lparr>stdout_queue := stdout_queue s @ reader_thread (stdout_read t)\<rparr>
      in if clock t - start_time > timeout
         then (case check_status (poll_obs t) (log ERROR TimedOut s) of
                 (Return alive, s') \<Rightarrow> Done (Return (False, events)) s'
               | (Raise e, s') \<Rightarrow> Done (Raise e) s')
         else
           (case process s of
              None \<Rightarrow> Done (Raise AttributeError) s
            | Some p \<Rightarrow>
                (case poll (poll_obs t) p of
                   (Some c, p') \<Rightarrow>
                     Done (Return (False, events))
                       (log ERROR (ProcessExited c) (s\<lparr>process := Some p'\<rparr>))
                 | (None, p') \<Rightarrow>
                     (let s = s\<lparr>process := Some p'\<rparr>
                      in case stdout_queue s of
                           [] \<Rightarrow> Continue events s
                         | line # rest \<Rightarrow>
                             (let s = s\<lparr>stdout_queue := rest\<rparr>
                              in case loads line of
                                   LoadsRaises e \<Rightarrow> Done (Raise e) s
                                 | JSONDecodeError \<Rightarrow>
                                     Continue events
                                       (if strip line \<noteq> []
                                        then log WARNING (NonJsonOutput line) s
                                        else s)
                                 | Parsed event \<Rightarrow>
                                     (let events = events @ [event];
                                          s = s\<lparr>event_log := event_log s @ [event]\<rparr>
                                      in case handle_event event s of
                                           (Return True, s') \<Rightarrow> Done (Return (True, events)) s'
                                         | (Return False, s') \<Rightarrow> Continue events s'
                                         | (Raise e, s') \<Rightarrow> Done (Raise e) s'))))))"

text \<open>
  The loop itself, over the passes the environment supplies. \<open>None\<close> says that the
  method has not returned within them.
\<close>

fun wait_loop ::
  "(string \<Rightarrow> loads_outcome) \<Rightarrow> real \<Rightarrow> real \<Rightarrow> tick list \<Rightarrow> json list \<Rightarrow> wrapper
     \<Rightarrow> ((bool \<times> json list) result \<times> wrapper) option" where
  "wait_loop loads start_time timeout [] events s = None"
| "wait_loop loads start_time timeout (t # ts) events s =
     (case iteration loads start_time timeout t events s of
        Continue events' s' \<Rightarrow> wait_loop loads start_time timeout ts events' s'
      | Done r s' \<Rightarrow> Some (r, s'))"

text \<open>
  \<^verbatim>\<open>wait_for_result(timeout)\<close>: \<open>start_time\<close> is the first reading of the clock.
\<close>

definition wait_for_result ::
  "(string \<Rightarrow> loads_outcome) \<Rightarrow> real \<Rightarrow> real \<Rightarrow> tick list \<Rightarrow> wrapper
     \<Rightarrow> ((bool \<times> json list) result \<times> wrapper) option" where
  "wait_for_result loads timeout start_time ticks s =
     wait_loop loads start_time timeout ticks [] (log INFO WaitingForStream s)"

subsection \<open>Notions used to state the properties\<close>

text \<open>An event whose \<^verbatim>\<open>type\<close> is \<^verbatim>\<open>result\<close>.\<close>

definition is_result :: "json \<Rightarrow> bool" where
  "is_result event =
     (case event of JDict d \<Rightarrow> get d ''type'' JNull = JStr ''result'' | _ \<Rightarrow> False)"

text \<open>The lines the reader thread puts on the stdout queue during the given passes.\<close>

definition arrived :: "tick list \<Rightarrow> string list" where
  "arrived ticks = concat (map (\<lambda>t. reader_thread (stdout_read t)) ticks)"

text \<open>
  The local \<open>events\<close> and the wrapper after the given passes, when the loop is still
  running after them; \<open>None\<close> when it has ended within them.
\<close>

fun loop_after ::
  "(string \<Rightarrow> loads_outcome) \<Rightarrow> real \<Rightarrow> real \<Rightarrow> tick list \<Rightarrow> json list \<Rightarrow> wrapper
     \<Rightarrow> (json list \<times> wrapper) option" where
  "loop_after loads start_time timeout [] events s = Some (events, s)"
| "loop_after loads start_time timeout (t # ts) events s =
     (case iteration loads start_time timeout t events s of
        Continue events' s' \<Rightarrow> loop_after loads start_time timeout ts events' s'
      | Done r s' \<Rightarrow> None)"

text \<open>The events among the given lines: those that \<open>loads\<close> parses, in order.\<close>

definition parsed :: "(string \<Rightarrow> loads_outcome) \<Rightarrow> string list \<Rightarrow> json list" where
  "parsed loads lines =
     List.map_filter (\<lambda>line. case loads line of Parsed event \<Rightarrow> Some event | _ \<Rightarrow> None) lines"

subsection \<open>Concrete inputs\<close>

text \<open>
  \<^verbatim>\<open>json.loads\<close> on the lines used in the examples below: the lines of the table
  parse to the values beside them, and every other line of the examples (the empty line,
  \<^verbatim>\<open>not json\<close>) is one that \<^verbatim>\<open>json.loads\<close> rejects with \<^verbatim>\<open>JSONDecodeError\<close>.
\<close>

definition sample_table :: "(string \<times> json) list" where
  \<open>sample_table =
       [(''{"type": "result", "duration_ms": 12}'',
         JDict [(''type'', JStr ''result''), (''duration_ms'', JInt 12)]),
        (''{"type": "error", "error": "boom"}'',
         JDict [(''type'', JStr ''error''), (''error'', JStr ''boom'')]),
        (''{"type": "error", "error": {"message": "boom"}}'',
         JDict [(''type'', JStr ''error''), (''error'', JDict [(''message'', JStr ''boom'')])]),
        (''{"type": "ping"}'', JDict [(''type'', JStr ''ping'')]),
        (''{"seq": 7}'', JDict [(''seq'', JInt 7)])]\<close>

definition sample_loads :: "string \<Rightarrow> loads_outcome" where
  "sample_loads line =
     (case map_of sample_table line of Some event \<Rightarrow> Parsed event | None \<Rightarrow> JSONDecodeError)"

text \<open>A wrapper that was started and whose child runs; the same one never started.\<close>

definition fresh_wrapper :: wrapper where
  "fresh_wrapper = init (Some ''s1'') ''u1''"

definition live_wrapper :: wrapper where
  "live_wrapper = snd (start ''default'' True fresh_wrapper)"

section \<open>Properties\<close>

subsection \<open>How one pass of the wait loop acts on the wrapper\<close>

lemma parsed_simps [simp]:
  "parsed loads [] = []"
  "parsed loads (l # ls) =
     (case loads l of Parsed e \<Rightarrow> e # parsed loads ls | _ \<Rightarrow> parsed loads ls)"
  "parsed loads (xs @ ys) = parsed loads xs @ parsed loads ys"
  by (simp_all add: parsed_def List.map_filter_def split: loads_outcome.splits)

lemma nested_blocks_frame:
  "nested_blocks blocks s = (r, s') \<Longrightarrow>
     process s' = process s \<and> stdout_queue s' = stdout_queue s \<and> event_log s' = event_log s
     \<and> running s' = running s \<and> stderr_queue s' = stderr_queue s \<and> session_id s' = session_id s"
  by (induction blocks arbitrary: s) (auto simp: log_def split: json.splits if_splits)

lemma handle_event_frame:
  assumes "handle_event event s = (r, s')"
  shows "process s' = process s \<and> stdout_queue s' = stdout_queue s \<and> event_log s' = event_log s
     \<and> running s' = running s \<and> stderr_queue s' = stderr_queue s \<and> session_id s' = session_id s"
proof (cases event)
  case (JDict d)
  with assms show ?thesis
    by (auto simp: handle_event_def Let_def log_def
        split: if_splits json.splits sum.splits prod.splits result.splits
        dest!: nested_blocks_frame)
qed (use assms in \<open>auto simp: handle_event_def\<close>)

lemma handle_event_True:
  "handle_event event s = (Return True, s') \<Longrightarrow> is_result event"
  by (cases event)
    (auto simp: handle_event_def is_result_def Let_def
      split: if_splits json.splits sum.splits prod.splits result.splits)

lemma handle_event_result:
  "is_result event \<Longrightarrow> \<exists>s'. handle_event event s = (Return True, s')"
  by (cases event) (auto simp: handle_event_def is_result_def Let_def)

lemma poll_None:
  "poll obs p = (None, p') \<longleftrightarrow> returncode p = None \<and> obs = None \<and> p' = p"
  by (cases p) (auto simp: poll_def split: option.splits)

lemma poll_Some:
  "poll obs p = (Some c, p') \<Longrightarrow> returncode p' = Some c \<and> calls p' = calls p"
  by (auto simp: poll_def split: option.splits)

lemma check_status_frame:
  "check_status obs s = (r, s') \<Longrightarrow>
     stdout_queue s' = stdout_queue s \<and> event_log s' = event_log s"
  by (auto simp: check_status_def log_def split: option.splits prod.splits)

lemma iteration_Continue:
  assumes "iteration loads st to t ev s = Continue ev' s'"
  shows "\<not> clock t - st > to \<and> poll_obs t = None
     \<and> (\<exists>p. process s = Some p \<and> returncode p = None)
     \<and> (\<exists>c. length c \<le> 1
            \<and> c @ stdout_queue s' = stdout_queue s @ reader_thread (stdout_read t)
            \<and> ev' = ev @ parsed loads c
            \<and> event_log s' = event_log s @ parsed loads c)"
proof -
  let ?q = "stdout_queue s @ reader_thread (stdout_read t)"
  from assms have dl: "\<not> clock t - st > to"
    by (auto simp: iteration_def Let_def split: prod.splits result.splits)
  from assms dl obtain p where p: "process s = Some p"
    by (cases "process s") (auto simp: iteration_def Let_def)
  from assms dl p have pl: "poll (poll_obs t) p = (None, p)"
    by (cases "poll (poll_obs t) p"; cases "fst (poll (poll_obs t) p)")
       (auto simp: iteration_def Let_def poll_None)
  then have rc: "returncode p = None" "poll_obs t = None" by (simp_all add: poll_None)
  have "\<exists>c. length c \<le> 1 \<and> c @ stdout_queue s' = ?q \<and> ev' = ev @ parsed loads c
            \<and> event_log s' = event_log s @ parsed loads c"
  proof (cases ?q)
    case Nil
    with assms dl p pl have "ev' = ev" "stdout_queue s' = []" "event_log s' = event_log s"
      by (auto simp: iteration_def Let_def)
    with Nil show ?thesis by (intro exI [of _ "[]"]) simp
  next
    case (Cons line rest)
    show ?thesis
    proof (cases "loads line")
      case (LoadsRaises e)
      with assms dl p pl Cons show ?thesis
        by (simp add: iteration_def Let_def)
    next
      case JSONDecodeError
      with assms dl p pl Cons have "ev' = ev" "stdout_queue s' = rest" "event_log s' = event_log s"
        by (auto simp: iteration_def Let_def log_def split: if_splits)
      with Cons JSONDecodeError show ?thesis by (intro exI [of _ "[line]"]) simp
    next
      case (Parsed event)
      let ?s1 = "s\<lparr>stdout_queue := ?q, process := Some p, stdout_queue := rest,
                   event_log := event_log s @ [event]\<rparr>"
      obtain r s2 where h: "handle_event event ?s1 = (r, s2)" by (cases "handle_event event ?s1")
      from assms dl p pl Cons Parsed h have "ev' = ev @ [event]" "s' = s2"
        by (auto simp: iteration_def Let_def split: result.splits bool.splits)
      moreover from handle_event_frame [OF h]
      have "stdout_queue s2 = rest" "event_log s2 = event_log s @ [event]" by simp_all
      ultimately show ?thesis using Cons Parsed by (intro exI [of _ "[line]"]) simp
    qed
  qed
  with dl p rc show ?thesis by blast
qed

lemma iteration_Done:
  assumes "iteration loads st to t ev s = Done r s'"
  shows "\<exists>c. length c \<le> 1
            \<and> c @ stdout_queue s' = stdout_queue s @ reader_thread (stdout_read t)
            \<and> event_log s' = event_log s @ parsed loads c
            \<and> (\<forall>ok evs. r = Return (ok, evs) \<longrightarrow>
                  evs = ev @ parsed loads c
                  \<and> (ok \<longrightarrow> (\<exists>line event. c = [line] \<and> loads line = Parsed event \<and> is_result event)))"
proof -
  let ?q = "stdout_queue s @ reader_thread (stdout_read t)"
  let ?P = "\<lambda>c. length c \<le> 1 \<and> c @ stdout_queue s' = ?q
            \<and> event_log s' = event_log s @ parsed loads c
            \<and> (\<forall>ok evs. r = Return (ok, evs) \<longrightarrow>
                  evs = ev @ parsed loads c
                  \<and> (ok \<longrightarrow> (\<exists>line event. c = [line] \<and> loads line = Parsed event \<and> is_result event)))"
  show ?thesis
  proof (cases "clock t - st > to")
    case True
    let ?s1 = "log ERROR TimedOut (s\<lparr>stdout_queue := ?q\<rparr>)"
    obtain r1 s2 where cs: "check_status (poll_obs t) ?s1 = (r1, s2)"
      by (cases "check_status (poll_obs t) ?s1")
    from assms True cs have "s' = s2" "\<forall>ok evs. r = Return (ok, evs) \<longrightarrow> \<not> ok \<and> evs = ev"
      by (auto simp: iteration_def Let_def split: result.splits)
    moreover from check_status_frame [OF cs]
    have "stdout_queue s2 = ?q" "event_log s2 = event_log s" by (simp_all add: log_def)
    ultimately have "?P []" by auto
    then show ?thesis ..
  next
    case dl: False
    show ?thesis
    proof (cases "process s")
      case None
      with assms dl have "s' = s\<lparr>stdout_queue := ?q\<rparr>" "r = Raise AttributeError"
        by (auto simp: iteration_def Let_def)
      then have "?P []" by auto
      then show ?thesis ..
    next
      case (Some p)
      obtain o1 p' where pl: "poll (poll_obs t) p = (o1, p')" by (cases "poll (poll_obs t) p")
      show ?thesis
      proof (cases o1)
        case (Some c)
        with assms dl \<open>process s = Some p\<close> pl
        have "s' = log ERROR (ProcessExited c) (s\<lparr>stdout_queue := ?q, process := Some p'\<rparr>)"
          "r = Return (False, ev)"
          by (auto simp: iteration_def Let_def)
        then have "?P []" by (auto simp: log_def)
        then show ?thesis ..
      next
        case None
        show ?thesis
        proof (cases ?q)
          case Nil
          with assms dl \<open>process s = Some p\<close> pl None show ?thesis
            by (auto simp: iteration_def Let_def)
        next
          case (Cons line rest)
          show ?thesis
          proof (cases "loads line")
            case (LoadsRaises e)
            with assms dl \<open>process s = Some p\<close> pl None Cons
            have "r = Raise e" "stdout_queue s' = rest" "event_log s' = event_log s"
              by (auto simp: iteration_def Let_def)
            with Cons LoadsRaises have "?P [line]" by auto
            then show ?thesis ..
          next
            case JSONDecodeError
            with assms dl \<open>process s = Some p\<close> pl None Cons show ?thesis
              by (auto simp: iteration_def Let_def)
          next
            case (Parsed event)
            let ?s1 = "s\<lparr>stdout_queue := ?q, process := Some p', stdout_queue := rest,
                   event_log := event_log s @ [event]\<rparr>"
            obtain r1 s2 where h: "handle_event event ?s1 = (r1, s2)"
              by (cases "handle_event event ?s1")
            from assms dl \<open>process s = Some p\<close> pl None Cons Parsed h
            have "s' = s2" "\<forall>ok evs. r = Return (ok, evs) \<longrightarrow> evs = ev @ [event] \<and> ok \<and> r1 = Return True"
              by (auto simp: iteration_def Let_def split: result.splits bool.splits)
            moreover from handle_event_frame [OF h]
            have "stdout_queue s2 = rest" "event_log s2 = event_log s @ [event]" by simp_all
            moreover have "r1 = Return True \<Longrightarrow> is_result event"
              using h handle_event_True by blast
            ultimately have "?P [line]" using Cons Parsed by auto
            then show ?thesis ..
          qed
        qed
      qed
    qed
  qed
qed

lemma iteration_success_iff:
  "(\<exists>evs s'. iteration loads st to t ev s = Done (Return (True, evs)) s') \<longleftrightarrow>
     (\<not> clock t - st > to \<and>
      (\<exists>p p' line rest d. process s = Some p \<and> poll (poll_obs t) p = (None, p')
         \<and> stdout_queue s @ reader_thread (stdout_read t) = line # rest
         \<and> loads line = Parsed (JDict d) \<and> get d ''type'' JNull = JStr ''result''))"
  (is "?L \<longleftrightarrow> ?R")
proof
  assume ?L
  then obtain evs s' where d: "iteration loads st to t ev s = Done (Return (True, evs)) s'" by blast
  have dl: "\<not> clock t - st > to"
    using d by (auto simp: iteration_def Let_def split: prod.splits result.splits)
  from d dl obtain p where p: "process s = Some p"
    by (cases "process s") (auto simp: iteration_def Let_def)
  obtain o1 p' where pl: "poll (poll_obs t) p = (o1, p')" by (cases "poll (poll_obs t) p")
  from d dl p pl have o1: "o1 = None" by (cases o1) (auto simp: iteration_def Let_def)
  from d dl p pl o1 obtain line rest where q: "stdout_queue s @ reader_thread (stdout_read t) = line # rest"
    by (cases "stdout_queue s @ reader_thread (stdout_read t)") (auto simp: iteration_def Let_def)
  from d dl p pl o1 q obtain event where e: "loads line = Parsed event"
    by (cases "loads line") (auto simp: iteration_def Let_def)
  let ?s1 = "s\<lparr>stdout_queue := stdout_queue s @ reader_thread (stdout_read t), process := Some p', stdout_queue := rest,
                   event_log := event_log s @ [event]\<rparr>"
  obtain r1 s2 where h: "handle_event event ?s1 = (r1, s2)" by (cases "handle_event event ?s1")
  from d dl p pl o1 q e h have "r1 = Return True"
    by (auto simp: iteration_def Let_def split: result.splits bool.splits)
  with h have "is_result event" using handle_event_True by blast
  then obtain dd where "event = JDict dd" "get dd ''type'' JNull = JStr ''result''"
    by (cases event) (auto simp: is_result_def)
  with dl p pl o1 q e show ?R by blast
next
  assume ?R
  then obtain p p' line rest d where dl: "\<not> clock t - st > to" and p: "process s = Some p"
    and pl: "poll (poll_obs t) p = (None, p')"
    and q: "stdout_queue s @ reader_thread (stdout_read t) = line # rest"
    and e: "loads line = Parsed (JDict d)" and ty: "get d ''type'' JNull = JStr ''result''"
    by blast
  then show ?L
    by (simp add: iteration_def Let_def handle_event_def)
qed

subsection \<open>The wait loop as a whole\<close>

lemma arrived_simps [simp]:
  "arrived [] = []"
  "arrived (t # ts) = reader_thread (stdout_read t) @ arrived ts"
  "arrived (xs @ ys) = arrived xs @ arrived ys"
  by (simp_all add: arrived_def)

lemma wait_loop_split:
  "wait_loop loads st to ticks ev s = Some (r, s') \<longleftrightarrow>
     (\<exists>n < length ticks. \<exists>e1 s1.
        loop_after loads st to (take n ticks) ev s = Some (e1, s1)
        \<and> iteration loads st to (ticks ! n) e1 s1 = Done r s')"
proof (induction ticks arbitrary: ev s)
  case Nil
  show ?case by simp
next
  case (Cons t ts)
  show ?case
  proof (cases "iteration loads st to t ev s")
    case (Continue ev1 s1)
    have "wait_loop loads st to (t # ts) ev s = Some (r, s') \<longleftrightarrow>
        (\<exists>n < length ts. \<exists>e1 s2.
          loop_after loads st to (take n ts) ev1 s1 = Some (e1, s2)
          \<and> iteration loads st to (ts ! n) e1 s2 = Done r s')"
      using Continue Cons.IH by simp
    also have "\<dots> \<longleftrightarrow> (\<exists>n < length (t # ts). \<exists>e1 s2.
        loop_after loads st to (take n (t # ts)) ev s = Some (e1, s2)
        \<and> iteration loads st to ((t # ts) ! n) e1 s2 = Done r s')" (is "?A \<longleftrightarrow> ?B")
    proof
      assume ?A
      then obtain n e1 s2 where "n < length ts"
        "loop_after loads st to (take n ts) ev1 s1 = Some (e1, s2)"
        "iteration loads st to (ts ! n) e1 s2 = Done r s'" by blast
      then have "Suc n < length (t # ts) \<and>
        loop_after loads st to (take (Suc n) (t # ts)) ev s = Some (e1, s2)
        \<and> iteration loads st to ((t # ts) ! Suc n) e1 s2 = Done r s'"
        using Continue by simp
      then show ?B by blast
    next
      assume ?B
      then obtain n e1 s2 where n: "n < length (t # ts)"
        and la: "loop_after loads st to (take n (t # ts)) ev s = Some (e1, s2)"
        and it: "iteration loads st to ((t # ts) ! n) e1 s2 = Done r s'" by blast
      show ?A
      proof (cases n)
        case 0
        with la it Continue show ?thesis by simp
      next
        case (Suc m)
        with n la it Continue have "m < length ts \<and>
          loop_after loads st to (take m ts) ev1 s1 = Some (e1, s2)
          \<and> iteration loads st to (ts ! m) e1 s2 = Done r s'" by simp
        then show ?thesis by blast
      qed
    qed
    finally show ?thesis .
  next
    case (Done r1 s1)
    show ?thesis
    proof
      assume "wait_loop loads st to (t # ts) ev s = Some (r, s')"
      with Done have "r1 = r" "s1 = s'" by simp_all
      with Done have "0 < length (t # ts) \<and>
         loop_after loads st to (take 0 (t # ts)) ev s = Some (ev, s)
         \<and> iteration loads st to ((t # ts) ! 0) ev s = Done r s'" by simp
      then show "\<exists>n < length (t # ts). \<exists>e1 s1.
        loop_after loads st to (take n (t # ts)) ev s = Some (e1, s1)
        \<and> iteration loads st to ((t # ts) ! n) e1 s1 = Done r s'" by blast
    next
      assume "\<exists>n < length (t # ts). \<exists>e1 s1.
        loop_after loads st to (take n (t # ts)) ev s = Some (e1, s1)
        \<and> iteration loads st to ((t # ts) ! n) e1 s1 = Done r s'"
      then obtain n e1 s2 where n: "n < length (t # ts)"
        and la: "loop_after loads st to (take n (t # ts)) ev s = Some (e1, s2)"
        and it: "iteration loads st to ((t # ts) ! n) e1 s2 = Done r s'" by blast
      from la Done have "n = 0" by (cases n) simp_all
      with la it Done show "wait_loop loads st to (t # ts) ev s = Some (r, s')" by simp
    qed
  qed
qed

lemma loop_after_trace:
  "loop_after loads st to ticks ev s = Some (e1, s1) \<Longrightarrow>
     \<exists>c. c @ stdout_queue s1 = stdout_queue s @ arrived ticks
        \<and> e1 = ev @ parsed loads c
        \<and> event_log s1 = event_log s @ parsed loads c"
proof (induction ticks arbitrary: ev s)
  case Nil
  then show ?case by (intro exI [of _ "[]"]) simp
next
  case (Cons t ts)
  from Cons.prems obtain ev2 s2 where it: "iteration loads st to t ev s = Continue ev2 s2"
    and la: "loop_after loads st to ts ev2 s2 = Some (e1, s1)"
    by (cases "iteration loads st to t ev s") simp_all
  from iteration_Continue [OF it] obtain c where
    c: "c @ stdout_queue s2 = stdout_queue s @ reader_thread (stdout_read t)"
      "ev2 = ev @ parsed loads c" "event_log s2 = event_log s @ parsed loads c" by blast
  from Cons.IH [OF la] obtain c' where
    c': "c' @ stdout_queue s1 = stdout_queue s2 @ arrived ts"
      "e1 = ev2 @ parsed loads c'" "event_log s1 = event_log s2 @ parsed loads c'" by blast
  have "(c @ c') @ stdout_queue s1 = stdout_queue s @ arrived (t # ts)"
    using c(1) c'(1) by (metis append.assoc arrived_simps(2))
  with c c' show ?case by (intro exI [of _ "c @ c'"]) simp
qed

lemma loop_after_passes:
  "loop_after loads st to ticks ev s = Some (e1, s1) \<Longrightarrow> i < length ticks \<Longrightarrow>
     \<not> clock (ticks ! i) - st > to \<and> poll_obs (ticks ! i) = None"
proof (induction ticks arbitrary: ev s i)
  case Nil
  then show ?case by simp
next
  case (Cons t ts)
  from Cons.prems obtain ev2 s2 where it: "iteration loads st to t ev s = Continue ev2 s2"
    and la: "loop_after loads st to ts ev2 s2 = Some (e1, s1)"
    by (cases "iteration loads st to t ev s") simp_all
  show ?case
  proof (cases i)
    case 0
    with iteration_Continue [OF it] show ?thesis by simp
  next
    case (Suc j)
    with Cons.prems Cons.IH [OF la, of j] show ?thesis by simp
  qed
qed

lemma wait_loop_trace:
  assumes "wait_loop loads st to ticks ev s = Some (r, s')"
  shows "\<exists>n c. n < length ticks
        \<and> c @ stdout_queue s' = stdout_queue s @ arrived (take (Suc n) ticks)
        \<and> event_log s' = event_log s @ parsed loads c
        \<and> (\<forall>ok evs. r = Return (ok, evs) \<longrightarrow>
              evs = ev @ parsed loads c
              \<and> (ok \<longrightarrow> (\<exists>line event. c \<noteq> [] \<and> last c = line \<and> loads line = Parsed event
                      \<and> is_result event)))"
proof -
  from assms obtain n e1 s1 where n: "n < length ticks"
    and la: "loop_after loads st to (take n ticks) ev s = Some (e1, s1)"
    and it: "iteration loads st to (ticks ! n) e1 s1 = Done r s'"
    unfolding wait_loop_split by blast
  from loop_after_trace [OF la] obtain c where
    c: "c @ stdout_queue s1 = stdout_queue s @ arrived (take n ticks)"
      "e1 = ev @ parsed loads c" "event_log s1 = event_log s @ parsed loads c" by blast
  from iteration_Done [OF it] obtain c' where
    c': "c' @ stdout_queue s' = stdout_queue s1 @ reader_thread (stdout_read (ticks ! n))"
      "event_log s' = event_log s1 @ parsed loads c'"
      "\<forall>ok evs. r = Return (ok, evs) \<longrightarrow>
                  evs = e1 @ parsed loads c'
                  \<and> (ok \<longrightarrow> (\<exists>line event. c' = [line] \<and> loads line = Parsed event \<and> is_result event))"
    by blast
  have tk: "take (Suc n) ticks = take n ticks @ [ticks ! n]"
    using n by (simp add: take_Suc_conv_app_nth)
  have "(c @ c') @ stdout_queue s' = stdout_queue s @ arrived (take (Suc n) ticks)"
    using c(1) c'(1) by (simp add: tk)
  moreover have "event_log s' = event_log s @ parsed loads (c @ c')"
    using c(3) c'(2) by simp
  moreover have "\<forall>ok evs. r = Return (ok, evs) \<longrightarrow>
              evs = ev @ parsed loads (c @ c')
              \<and> (ok \<longrightarrow> (\<exists>line event. c @ c' \<noteq> [] \<and> last (c @ c') = line \<and> loads line = Parsed event
                      \<and> is_result event))"
    using c(2) c'(3) by auto
  ultimately show ?thesis using n by blast
qed

lemma wait_for_result_split:
  "wait_for_result loads timeout st ticks s = Some (r, s') \<longleftrightarrow>
     (\<exists>n < length ticks. \<exists>e1 s1.
        loop_after loads st timeout (take n ticks) [] (log INFO WaitingForStream s) = Some (e1, s1)
        \<and> iteration loads st timeout (ticks ! n) e1 s1 = Done r s')"
  unfolding wait_for_result_def by (rule wait_loop_split)

lemma iteration_exit:
  assumes "\<not> clock t - st > to" and "process s = Some p" and "poll (poll_obs t) p = (Some c, p')"
  shows "iteration loads st to t ev s =
           Done (Return (False, ev))
             (log ERROR (ProcessExited c)
               (s\<lparr>stdout_queue := stdout_queue s @ reader_thread (stdout_read t),
                   process := Some p'\<rparr>))"
  using assms by (simp add: iteration_def Let_def)

text \<open>
  The loop ends: a pass whose clock reading is past the deadline always ends the call, so
  the call returns, or raises, within any run of passes that reaches the deadline.
\<close>

lemma iteration_deadline:
  assumes "clock t - st > to"
  shows "\<exists>r s'. iteration loads st to t ev s = Done r s'"
proof -
  let ?s1 = "log ERROR TimedOut (s\<lparr>stdout_queue := stdout_queue s @ reader_thread (stdout_read t)\<rparr>)"
  obtain r1 s2 where "check_status (poll_obs t) ?s1 = (r1, s2)"
    by (cases "check_status (poll_obs t) ?s1")
  with assms show ?thesis
    by (cases r1) (simp_all add: iteration_def Let_def)
qed

lemma wait_loop_returns_by_deadline:
  assumes "\<exists>t \<in> set ticks. clock t - st > to"
  shows "\<exists>r s'. wait_loop loads st to ticks ev s = Some (r, s')"
  using assms
proof (induction ticks arbitrary: ev s)
  case Nil
  then show ?case by simp
next
  case (Cons t ts)
  show ?case
  proof (cases "iteration loads st to t ev s")
    case (Done r s')
    then show ?thesis by simp
  next
    case (Continue ev1 s1)
    with iteration_deadline [of to t st loads ev s] have "\<not> clock t - st > to" by auto
    with Cons.prems have "\<exists>t \<in> set ts. clock t - st > to" by auto
    from Cons.IH [OF this, of ev1 s1] Continue show ?thesis by simp
  qed
qed

lemma wait_for_result_returns_by_deadline:
  "\<exists>t \<in> set ticks. clock t - start_time > timeout \<Longrightarrow>
     \<exists>r s'. wait_for_result loads timeout start_time ticks s = Some (r, s')"
  unfolding wait_for_result_def by (rule wait_loop_returns_by_deadline)

lemmas run_defs =
  iteration_def handle_event_def poll_def log_def reader_thread_def strip_def isspace_def
  newline_def init_def start_def fresh_wrapper_def live_wrapper_def sample_loads_def
  sample_table_def get_def
  check_status_def Let_def

subsection \<open>Success of \<^verbatim>\<open>wait_for_result\<close>\<close>

text \<open>
  Claim C1. A call of \<^verbatim>\<open>wait_for_result\<close> returns success exactly when, at some pass
  that the loop reaches still running, the deadline check passes, the liveness poll finds
  the child running, and the line taken from the stdout queue parses to an object whose
  \<^verbatim>\<open>type\<close> is \<^verbatim>\<open>result\<close>; at every pass up to that one the elapsed time has not
  exceeded the timeout and no poll has seen the child exit. When instead the poll of a
  pass reports the exit, the call returns failure whatever is on the queue, a
  \<^verbatim>\<open>result\<close> line included, and the queue is left as it is.
\<close>

theorem wait_for_result_success_iff:
  "((\<exists>evs s'. wait_for_result loads timeout start_time ticks s = Some (Return (True, evs), s')) \<longleftrightarrow>
      (\<exists>n < length ticks. \<exists>evs_n s_n p p' line rest d.
         loop_after loads start_time timeout (take n ticks) [] (log INFO WaitingForStream s)
           = Some (evs_n, s_n)
         \<and> (\<forall>i \<le> n. \<not> clock (ticks ! i) - start_time > timeout \<and> poll_obs (ticks ! i) = None)
         \<and> process s_n = Some p \<and> poll (poll_obs (ticks ! n)) p = (None, p')
         \<and> stdout_queue s_n @ reader_thread (stdout_read (ticks ! n)) = line # rest
         \<and> loads line = Parsed (JDict d) \<and> get d ''type'' JNull = JStr ''result''))
   \<and> (\<forall>n < length ticks. \<forall>evs_n s_n p c p'.
         loop_after loads start_time timeout (take n ticks) [] (log INFO WaitingForStream s)
           = Some (evs_n, s_n)
         \<and> \<not> clock (ticks ! n) - start_time > timeout
         \<and> process s_n = Some p \<and> poll (poll_obs (ticks ! n)) p = (Some c, p')
         \<longrightarrow> (\<exists>s'. wait_for_result loads timeout start_time ticks s = Some (Return (False, evs_n), s')
                \<and> stdout_queue s' = stdout_queue s_n @ reader_thread (stdout_read (ticks ! n))))"
  (is "(?L \<longleftrightarrow> ?R) \<and> ?E")
proof (intro conjI iffI)
  assume ?L
  then obtain evs s' n e1 s1 where n: "n < length ticks"
    and la: "loop_after loads start_time timeout (take n ticks) [] (log INFO WaitingForStream s)
           = Some (e1, s1)"
    and it: "iteration loads start_time timeout (ticks ! n) e1 s1 = Done (Return (True, evs)) s'"
    unfolding wait_for_result_split by blast
  from it have "\<exists>evs s'. iteration loads start_time timeout (ticks ! n) e1 s1 = Done (Return (True, evs)) s'"
    by blast
  then obtain p p' line rest d where dl: "\<not> clock (ticks ! n) - start_time > timeout"
    and p: "process s1 = Some p" "poll (poll_obs (ticks ! n)) p = (None, p')"
    and q: "stdout_queue s1 @ reader_thread (stdout_read (ticks ! n)) = line # rest"
    and e: "loads line = Parsed (JDict d)" "get d ''type'' JNull = JStr ''result''"
    unfolding iteration_success_iff by blast
  have "\<forall>i \<le> n. \<not> clock (ticks ! i) - start_time > timeout \<and> poll_obs (ticks ! i) = None"
  proof (intro allI impI)
    fix i assume "i \<le> n"
    show "\<not> clock (ticks ! i) - start_time > timeout \<and> poll_obs (ticks ! i) = None"
    proof (cases "i = n")
      case True
      with dl p(2) show ?thesis by (simp add: poll_None)
    next
      case False
      with \<open>i \<le> n\<close> n have "i < length (take n ticks)" by simp
      from loop_after_passes [OF la this] \<open>i \<le> n\<close> False show ?thesis by simp
    qed
  qed
  with n la p q e show ?R by blast
next
  assume ?R
  then obtain n evs_n s_n p p' line rest d where n: "n < length ticks"
    and la: "loop_after loads start_time timeout (take n ticks) [] (log INFO WaitingForStream s)
           = Some (evs_n, s_n)"
    and dl: "\<forall>i \<le> n. \<not> clock (ticks ! i) - start_time > timeout \<and> poll_obs (ticks ! i) = None"
    and p: "process s_n = Some p" "poll (poll_obs (ticks ! n)) p = (None, p')"
    and q: "stdout_queue s_n @ reader_thread (stdout_read (ticks ! n)) = line # rest"
    and e: "loads line = Parsed (JDict d)" "get d ''type'' JNull = JStr ''result''"
    by blast
  from dl have "\<not> clock (ticks ! n) - start_time > timeout" by simp
  with p q e have "\<exists>evs s'. iteration loads start_time timeout (ticks ! n) evs_n s_n
      = Done (Return (True, evs)) s'"
    unfolding iteration_success_iff by blast
  with n la show ?L unfolding wait_for_result_split by blast
next
  show ?E
  proof (intro allI impI)
    fix n evs_n s_n p c p'
    assume n: "n < length ticks"
      and h: "loop_after loads start_time timeout (take n ticks) [] (log INFO WaitingForStream s)
           = Some (evs_n, s_n)
         \<and> \<not> clock (ticks ! n) - start_time > timeout
         \<and> process s_n = Some p \<and> poll (poll_obs (ticks ! n)) p = (Some c, p')"
    let ?s' = "log ERROR (ProcessExited c)
               (s_n\<lparr>stdout_queue := stdout_queue s_n @ reader_thread (stdout_read (ticks ! n)),
                   process := Some p'\<rparr>)"
    from h have "iteration loads start_time timeout (ticks ! n) evs_n s_n
        = Done (Return (False, evs_n)) ?s'"
      by (simp add: iteration_exit)
    with n h have "wait_for_result loads timeout start_time ticks s = Some (Return (False, evs_n), ?s')"
      unfolding wait_for_result_split by blast
    moreover have "stdout_queue ?s' = stdout_queue s_n @ reader_thread (stdout_read (ticks ! n))"
      by (simp add: log_def)
    ultimately show "\<exists>s'. wait_for_result loads timeout start_time ticks s = Some (Return (False, evs_n), s')
                \<and> stdout_queue s' = stdout_queue s_n @ reader_thread (stdout_read (ticks ! n))"
      by blast
  qed
qed

theorem wait_for_result_success_iff_witness:
  \<open>(\<exists>evs s'. wait_for_result sample_loads 60 0
        [\<lparr>clock = 1, poll_obs = None,
          stdout_read = [''{"type": "result", "duration_ms": 12}'' @ [newline]]\<rparr>]
        live_wrapper = Some (Return (True, evs), s'))
   \<and> (\<exists>s'. wait_for_result sample_loads 60 0
        [\<lparr>clock = 1, poll_obs = Some 1, stdout_read = []\<rparr>]
        (live_wrapper\<lparr>stdout_queue := [''{"type": "result", "duration_ms": 12}'']\<rparr>)
          = Some (Return (False, []), s')
        \<and> stdout_queue s' = [''{"type": "result", "duration_ms": 12}''])\<close>
proof (intro conjI)
  let ?line = \<open>''{"type": "result", "duration_ms": 12}''\<close>
  let ?ta = "\<lparr>clock = 1, poll_obs = None, stdout_read = [?line @ [newline]]\<rparr>"
  let ?p = "\<lparr>returncode = None, calls = []\<rparr>"
  let ?s0 = "log INFO WaitingForStream live_wrapper"
  let ?d = "[(''type'', JStr ''result''), (''duration_ms'', JInt 12)]"
  have "0 < length [?ta]"
    and "loop_after sample_loads 0 60 (take 0 [?ta]) [] ?s0 = Some ([], ?s0)"
    and "\<forall>i \<le> 0. \<not> clock ([?ta] ! i) - 0 > 60 \<and> poll_obs ([?ta] ! i) = None"
    and "process ?s0 = Some ?p" and "poll (poll_obs ([?ta] ! 0)) ?p = (None, ?p)"
    and "stdout_queue ?s0 @ reader_thread (stdout_read ([?ta] ! 0)) = ?line # []"
    and "sample_loads ?line = Parsed (JDict ?d)" and "get ?d ''type'' JNull = JStr ''result''"
    by (simp_all add: run_defs)
  then have "\<exists>n < length [?ta]. \<exists>evs_n s_n p p' line rest d.
         loop_after sample_loads 0 60 (take n [?ta]) [] (log INFO WaitingForStream live_wrapper)
           = Some (evs_n, s_n)
         \<and> (\<forall>i \<le> n. \<not> clock ([?ta] ! i) - 0 > 60 \<and> poll_obs ([?ta] ! i) = None)
         \<and> process s_n = Some p \<and> poll (poll_obs ([?ta] ! n)) p = (None, p')
         \<and> stdout_queue s_n @ reader_thread (stdout_read ([?ta] ! n)) = line # rest
         \<and> sample_loads line = Parsed (JDict d) \<and> get d ''type'' JNull = JStr ''result''"
    by (intro exI [of _ 0] exI [of _ "[]"] exI [of _ ?s0] exI [of _ ?p] exI [of _ ?line]
          exI [of _ ?d] conjI)
  with wait_for_result_success_iff [of sample_loads 60 0 "[?ta]" live_wrapper]
  show "\<exists>evs s'. wait_for_result sample_loads 60 0 [?ta] live_wrapper = Some (Return (True, evs), s')"
    by blast
next
  let ?line = \<open>''{"type": "result", "duration_ms": 12}''\<close>
  let ?tb = "\<lparr>clock = 1, poll_obs = Some 1, stdout_read = []\<rparr>"
  let ?s = "live_wrapper\<lparr>stdout_queue := [?line]\<rparr>"
  let ?p = "\<lparr>returncode = None, calls = []\<rparr>"
  have h: "loop_after sample_loads 0 60 (take 0 [?tb]) [] (log INFO WaitingForStream ?s)
           = Some ([], log INFO WaitingForStream ?s)
         \<and> \<not> clock ([?tb] ! 0) - 0 > 60
         \<and> process (log INFO WaitingForStream ?s) = Some ?p
         \<and> poll (poll_obs ([?tb] ! 0)) ?p = (Some 1, ?p\<lparr>returncode := Some 1\<rparr>)"
    by (simp add: run_defs)
  from wait_for_result_success_iff [of sample_loads 60 0 "[?tb]" ?s, THEN conjunct2, rule_format, of 0, OF _ h]
  have "\<exists>s'. wait_for_result sample_loads 60 0 [?tb] ?s = Some (Return (False, []), s')
      \<and> stdout_queue s' = stdout_queue (log INFO WaitingForStream ?s) @ reader_thread (stdout_read ([?tb] ! 0))"
    by simp
  then show "\<exists>s'. wait_for_result sample_loads 60 0 [?tb] ?s = Some (Return (False, []), s')
        \<and> stdout_queue s' = [?line]"
    by (simp add: log_def reader_thread_def)
qed

subsection \<open>The child exits during the wait\<close>

text \<open>
  Claim C2, as stated, fails: the value returned when the poll reports the exit is
  \<^verbatim>\<open>(False, events)\<close> whatever the exit code is. A child that exits with code 1 and one
  that exits with code 2 give the same returned value.
\<close>

theorem exit_code_not_in_returned_value:
  "map_option fst
     (wait_for_result sample_loads 60 0 [\<lparr>clock = 1, poll_obs = Some 1, stdout_read = []\<rparr>]
        live_wrapper) = Some (Return (False, []))
   \<and> map_option fst
     (wait_for_result sample_loads 60 0 [\<lparr>clock = 1, poll_obs = Some 2, stdout_read = []\<rparr>]
        live_wrapper) = Some (Return (False, []))"
  by (simp add: wait_for_result_def run_defs)

text \<open>
  Claim C2, amended. When the liveness poll of a pass reports that the child has
  exited, the loop having run until then, the call returns \<^verbatim>\<open>(False, events)\<close> with the
  events collected so far; the exit code goes to the error record of the log and stays
  in the handle's \<^verbatim>\<open>returncode\<close>; the pass takes no line from the stdout queue and adds
  nothing to the event log.
\<close>

theorem exit_returns_failure_without_draining:
  assumes "n < length ticks"
    and "loop_after loads start_time timeout (take n ticks) [] (log INFO WaitingForStream s)
           = Some (evs_n, s_n)"
    and "\<not> clock (ticks ! n) - start_time > timeout"
    and "process s_n = Some p"
    and "poll (poll_obs (ticks ! n)) p = (Some c, p')"
  shows "\<exists>s'. wait_for_result loads timeout start_time ticks s = Some (Return (False, evs_n), s')
           \<and> logger s' = logger s_n @ [(ERROR, ProcessExited c)]
           \<and> map_option returncode (process s') = Some (Some c)
           \<and> stdout_queue s' = stdout_queue s_n @ reader_thread (stdout_read (ticks ! n))
           \<and> event_log s' = event_log s_n"
proof -
  let ?s' = "log ERROR (ProcessExited c)
               (s_n\<lparr>stdout_queue := stdout_queue s_n @ reader_thread (stdout_read (ticks ! n)),
                   process := Some p'\<rparr>)"
  from assms(3-5) have "iteration loads start_time timeout (ticks ! n) evs_n s_n
        = Done (Return (False, evs_n)) ?s'"
    by (rule iteration_exit)
  with assms(1,2) have "wait_for_result loads timeout start_time ticks s
      = Some (Return (False, evs_n), ?s')"
    unfolding wait_for_result_split by blast
  moreover have "returncode p' = Some c" using assms(5) by (rule poll_Some [THEN conjunct1])
  ultimately show ?thesis by (simp add: log_def)
qed

theorem exit_returns_failure_without_draining_witness:
  \<open>\<exists>s'. wait_for_result sample_loads 60 0
        [\<lparr>clock = 1, poll_obs = Some 3, stdout_read = [''{"type": "ping"}'' @ [newline]]\<rparr>]
        (live_wrapper\<lparr>stdout_queue := [''{"type": "result", "duration_ms": 12}'']\<rparr>)
          = Some (Return (False, []), s')
      \<and> logger s' = [(INFO, StartingCLI ''s1'' ''default''), (INFO, WaitingForStream),
                      (ERROR, ProcessExited 3)]
      \<and> map_option returncode (process s') = Some (Some 3)
      \<and> stdout_queue s' = [''{"type": "result", "duration_ms": 12}'', ''{"type": "ping"}'']
      \<and> event_log s' = []\<close>
proof -
  let ?t = \<open>\<lparr>clock = 1, poll_obs = Some 3, stdout_read = [''{"type": "ping"}'' @ [newline]]\<rparr>\<close>
  let ?s = \<open>live_wrapper\<lparr>stdout_queue := [''{"type": "result", "duration_ms": 12}'']\<rparr>\<close>
  let ?p = "\<lparr>returncode = None, calls = []\<rparr>"
  have 1: "0 < length [?t]" by simp
  have 2: "loop_after sample_loads 0 60 (take 0 [?t]) [] (log INFO WaitingForStream ?s)
      = Some ([], log INFO WaitingForStream ?s)" by simp
  have 3: "\<not> clock ([?t] ! 0) - 0 > 60" by simp
  have 4: "process (log INFO WaitingForStream ?s) = Some ?p" by (simp add: run_defs)
  have 5: "poll (poll_obs ([?t] ! 0)) ?p = (Some 3, ?p\<lparr>returncode := Some 3\<rparr>)"
    by (simp add: poll_def)
  from exit_returns_failure_without_draining [OF 1 2 3 4 5]
  show ?thesis by (simp add: run_defs)
qed

subsection \<open>Events of type \<^verbatim>\<open>error\<close>\<close>

text \<open>
  Claim C3. An \<^verbatim>\<open>error\<close> event should be recorded and the loop should go on. The
  source evaluates \<^verbatim>\<open>event.get('error', {}).get('message', event.get('error'))\<close>, and
  when the \<^verbatim>\<open>error\<close> field is a string the second \<^verbatim>\<open>.get\<close> raises
  \<^verbatim>\<open>AttributeError\<close>, which nothing catches: the call neither goes on nor returns, even
  though a \<^verbatim>\<open>result\<close> line follows.
\<close>

theorem error_event_with_string_raises:
  \<open>sample_loads ''{"type": "error", "error": "boom"}''
      = Parsed (JDict [(''type'', JStr ''error''), (''error'', JStr ''boom'')])
   \<and> map_option fst
     (wait_for_result sample_loads 60 0
        [\<lparr>clock = 1, poll_obs = None,
          stdout_read = [''{"type": "error", "error": "boom"}'' @ [newline]]\<rparr>,
         \<lparr>clock = 2, poll_obs = None,
          stdout_read = [''{"type": "result", "duration_ms": 12}'' @ [newline]]\<rparr>]
        live_wrapper) = Some (Raise AttributeError)\<close>
  by (simp add: wait_for_result_def run_defs)

text \<open>With an \<^verbatim>\<open>error\<close> field that is an object, or with none, the loop does go on.\<close>

lemma error_event_with_object_continues:
  assumes "\<not> clock t - start_time > timeout"
    and "process s = Some p"
    and "poll (poll_obs t) p = (None, p')"
    and "stdout_queue s @ reader_thread (stdout_read t) = line # rest"
    and "loads line = Parsed (JDict d)"
    and "get d ''type'' JNull = JStr ''error''"
    and "get d ''error'' (JDict []) = JDict err"
  shows "iteration loads start_time timeout t events s =
           Continue (events @ [JDict d])
             (log ERROR (ErrorEvent (get err ''message'' (get d ''error'' JNull)))
               (s\<lparr>process := Some p', stdout_queue := rest,
                   event_log := event_log s @ [JDict d]\<rparr>))"
  using assms by (simp add: iteration_def handle_event_def Let_def log_def)

subsection \<open>Events of an unrecognised type\<close>

text \<open>
  Claim C4. When the line taken from the stdout queue parses to an object whose
  \<^verbatim>\<open>type\<close> is none of \<^verbatim>\<open>thinking\<close>, \<^verbatim>\<open>status\<close>, \<^verbatim>\<open>tool_use\<close>, \<^verbatim>\<open>assistant\<close>,
  \<^verbatim>\<open>user\<close>, \<^verbatim>\<open>error\<close>, \<^verbatim>\<open>result\<close>, or is absent, the pass appends the object as it
  is to the local events list and to the event log, changes nothing else but the queue,
  logs nothing, and the loop goes on with the next pass.
\<close>

theorem unrecognized_type_appended:
  assumes "\<not> clock t - start_time > timeout"
    and "process s = Some p"
    and "poll (poll_obs t) p = (None, p')"
    and "stdout_queue s @ reader_thread (stdout_read t) = line # rest"
    and "loads line = Parsed (JDict d)"
    and "get d ''type'' JNull \<notin> set [JStr ''thinking'', JStr ''status'', JStr ''tool_use'',
           JStr ''assistant'', JStr ''user'', JStr ''error'', JStr ''result'']"
  shows "iteration loads start_time timeout t events s =
           Continue (events @ [JDict d])
             (s\<lparr>process := Some p', stdout_queue := rest, event_log := event_log s @ [JDict d]\<rparr>)
         \<and> wait_loop loads start_time timeout (t # ts) events s =
             wait_loop loads start_time timeout ts (events @ [JDict d])
               (s\<lparr>process := Some p', stdout_queue := rest, event_log := event_log s @ [JDict d]\<rparr>)"
proof -
  from assms have "iteration loads start_time timeout t events s =
           Continue (events @ [JDict d])
             (s\<lparr>process := Some p', stdout_queue := rest, event_log := event_log s @ [JDict d]\<rparr>)"
    by (simp add: iteration_def handle_event_def Let_def)
  then show ?thesis by simp
qed

theorem unrecognized_type_appended_witness:
  \<open>iteration sample_loads 0 60
      \<lparr>clock = 1, poll_obs = None, stdout_read = [''{"seq": 7}'' @ [newline]]\<rparr> []
      (live_wrapper\<lparr>stdout_queue := [''{"type": "ping"}'']\<rparr>)
     = Continue [JDict [(''type'', JStr ''ping'')]]
        (live_wrapper\<lparr>stdout_queue := [''{"seq": 7}''],
           event_log := [JDict [(''type'', JStr ''ping'')]]\<rparr>)
   \<and> iteration sample_loads 0 60 \<lparr>clock = 2, poll_obs = None, stdout_read = []\<rparr>
      [JDict [(''type'', JStr ''ping'')]]
      (live_wrapper\<lparr>stdout_queue := [''{"seq": 7}''],
           event_log := [JDict [(''type'', JStr ''ping'')]]\<rparr>)
     = Continue [JDict [(''type'', JStr ''ping'')], JDict [(''seq'', JInt 7)]]
        (live_wrapper\<lparr>stdout_queue := [],
           event_log := [JDict [(''type'', JStr ''ping'')], JDict [(''seq'', JInt 7)]]\<rparr>)\<close>
proof (intro conjI)
  let ?p = "\<lparr>returncode = None, calls = []\<rparr>"
  let ?t1 = \<open>\<lparr>clock = 1, poll_obs = None, stdout_read = [''{"seq": 7}'' @ [newline]]\<rparr>\<close>
  let ?s1 = \<open>live_wrapper\<lparr>stdout_queue := [''{"type": "ping"}'']\<rparr>\<close>
  have a: "\<not> clock ?t1 - 0 > 60" "process ?s1 = Some ?p" "poll (poll_obs ?t1) ?p = (None, ?p)"
    \<open>stdout_queue ?s1 @ reader_thread (stdout_read ?t1) = ''{"type": "ping"}'' # [''{"seq": 7}'']\<close>
    \<open>sample_loads ''{"type": "ping"}'' = Parsed (JDict [(''type'', JStr ''ping'')])\<close>
    "get [(''type'', JStr ''ping'')] ''type'' JNull \<notin> set [JStr ''thinking'', JStr ''status'',
       JStr ''tool_use'', JStr ''assistant'', JStr ''user'', JStr ''error'', JStr ''result'']"
    by (simp_all add: run_defs)
  from unrecognized_type_appended [where loads = sample_loads and start_time = 0 and timeout = 60
      and t = ?t1 and s = ?s1 and events = "[]", OF a, THEN conjunct1]
  show \<open>iteration sample_loads 0 60 ?t1 [] ?s1
     = Continue [JDict [(''type'', JStr ''ping'')]]
        (live_wrapper\<lparr>stdout_queue := [''{"seq": 7}''],
           event_log := [JDict [(''type'', JStr ''ping'')]]\<rparr>)\<close>
    by (simp add: run_defs)
next
  let ?p = "\<lparr>returncode = None, calls = []\<rparr>"
  let ?t2 = "\<lparr>clock = 2, poll_obs = None, stdout_read = []\<rparr>"
  let ?s2 = \<open>live_wrapper\<lparr>stdout_queue := [''{"seq": 7}''],
           event_log := [JDict [(''type'', JStr ''ping'')]]\<rparr>\<close>
  have b: "\<not> clock ?t2 - 0 > 60" "process ?s2 = Some ?p" "poll (poll_obs ?t2) ?p = (None, ?p)"
    \<open>stdout_queue ?s2 @ reader_thread (stdout_read ?t2) = ''{"seq": 7}'' # []\<close>
    \<open>sample_loads ''{"seq": 7}'' = Parsed (JDict [(''seq'', JInt 7)])\<close>
    "get [(''seq'', JInt 7)] ''type'' JNull \<notin> set [JStr ''thinking'', JStr ''status'',
       JStr ''tool_use'', JStr ''assistant'', JStr ''user'', JStr ''error'', JStr ''result'']"
    by (simp_all add: run_defs)
  from unrecognized_type_appended [where loads = sample_loads and start_time = 0 and timeout = 60
      and t = ?t2 and s = ?s2 and events = "[JDict [(''type'', JStr ''ping'')]]", OF b,
      THEN conjunct1]
  show \<open>iteration sample_loads 0 60 ?t2 [JDict [(''type'', JStr ''ping'')]] ?s2
     = Continue [JDict [(''type'', JStr ''ping'')], JDict [(''seq'', JInt 7)]]
        (live_wrapper\<lparr>stdout_queue := [],
           event_log := [JDict [(''type'', JStr ''ping'')], JDict [(''seq'', JInt 7)]]\<rparr>)\<close>
    by (simp add: run_defs)
qed

subsection \<open>Lines that are not JSON\<close>

text \<open>
  Claim C5, as stated, fails in its last part: a blank line of output reaches the queue
  as the empty string, does not parse, and is dropped without any log record, the source
  logging the line only under \<^verbatim>\<open>if line.strip()\<close>. The pass leaves the wrapper, its
  log included, exactly as it was.
\<close>

theorem blank_line_leaves_no_log_entry:
  "reader_thread [[newline]] = [[]]
   \<and> sample_loads [] = JSONDecodeError
   \<and> iteration sample_loads 0 60 \<lparr>clock = 1, poll_obs = None, stdout_read = [[newline]]\<rparr> []
        live_wrapper = Continue [] live_wrapper"
  by (simp add: run_defs)

text \<open>
  Claim C5, amended. A line taken from the stdout queue on which \<^verbatim>\<open>json.loads\<close> raises
  \<^verbatim>\<open>JSONDecodeError\<close> is appended neither to the local events list nor to the event
  log, the loop goes on with the next pass, and the line is logged as a warning when it
  is not blank; a blank line is dropped with no log record.
\<close>

theorem non_json_line_skipped:
  assumes "\<not> clock t - start_time > timeout"
    and "process s = Some p"
    and "poll (poll_obs t) p = (None, p')"
    and "stdout_queue s @ reader_thread (stdout_read t) = line # rest"
    and "loads line = JSONDecodeError"
  shows "iteration loads start_time timeout t events s =
           Continue events
             (s\<lparr>process := Some p', stdout_queue := rest,
                 logger := (if strip line \<noteq> [] then logger s @ [(WARNING, NonJsonOutput line)]
                            else logger s)\<rparr>)
         \<and> wait_loop loads start_time timeout (t # ts) events s =
             wait_loop loads start_time timeout ts events
               (s\<lparr>process := Some p', stdout_queue := rest,
                 logger := (if strip line \<noteq> [] then logger s @ [(WARNING, NonJsonOutput line)]
                            else logger s)\<rparr>)"
proof -
  from assms have "iteration loads start_time timeout t events s =
           Continue events
             (s\<lparr>process := Some p', stdout_queue := rest,
                 logger := (if strip line \<noteq> [] then logger s @ [(WARNING, NonJsonOutput line)]
                            else logger s)\<rparr>)"
    by (simp add: iteration_def Let_def log_def)
  then show ?thesis by simp
qed

theorem non_json_line_skipped_witness:
  \<open>iteration sample_loads 0 60
      \<lparr>clock = 1, poll_obs = None, stdout_read = [''not json'' @ [newline]]\<rparr>
      [JDict [(''type'', JStr ''ping'')]]
      (live_wrapper\<lparr>event_log := [JDict [(''type'', JStr ''ping'')]]\<rparr>)
     = Continue [JDict [(''type'', JStr ''ping'')]]
        (live_wrapper\<lparr>event_log := [JDict [(''type'', JStr ''ping'')]],
           logger := [(INFO, StartingCLI ''s1'' ''default''),
                      (WARNING, NonJsonOutput ''not json'')]\<rparr>)\<close>
proof -
  let ?p = "\<lparr>returncode = None, calls = []\<rparr>"
  let ?t = \<open>\<lparr>clock = 1, poll_obs = None, stdout_read = [''not json'' @ [newline]]\<rparr>\<close>
  let ?s = \<open>live_wrapper\<lparr>event_log := [JDict [(''type'', JStr ''ping'')]]\<rparr>\<close>
  have a: "\<not> clock ?t - 0 > 60" "process ?s = Some ?p" "poll (poll_obs ?t) ?p = (None, ?p)"
    "stdout_queue ?s @ reader_thread (stdout_read ?t) = ''not json'' # []"
    "sample_loads ''not json'' = JSONDecodeError"
    by (simp_all add: run_defs)
  from non_json_line_skipped [where loads = sample_loads and start_time = 0 and timeout = 60
      and t = ?t and s = ?s and events = "[JDict [(''type'', JStr ''ping'')]]", OF a,
      THEN conjunct1]
  show ?thesis by (simp add: run_defs)
qed

text \<open>
  A line on which \<^verbatim>\<open>json.loads\<close> raises anything but \<^verbatim>\<open>JSONDecodeError\<close> is another
  matter: the line is taken off the queue and the exception leaves \<^verbatim>\<open>wait_for_result\<close>.
\<close>

lemma loads_exception_aborts_wait:
  assumes "\<not> clock t - start_time > timeout"
    and "process s = Some p"
    and "poll (poll_obs t) p = (None, p')"
    and "stdout_queue s @ reader_thread (stdout_read t) = line # rest"
    and "loads line = LoadsRaises e"
  shows "wait_loop loads start_time timeout (t # ts) events s =
           Some (Raise e, s\<lparr>process := Some p', stdout_queue := rest\<rparr>)"
  using assms by (simp add: iteration_def Let_def)

subsection \<open>Sending\<close>

text \<open>\<^verbatim>\<open>send_raw\<close> by cases on what it is shown.\<close>

lemma send_raw_cases:
  "send_raw polled write_obs flush_obs payload_str s =
     (case process s of
        None \<Rightarrow> (Return False, log ERROR CannotSend s)
      | Some p \<Rightarrow>
          (case returncode p of
             Some c \<Rightarrow> (Return False, log ERROR CannotSend s)
           | None \<Rightarrow>
               (case polled of
                  Some c \<Rightarrow> (Return False, log ERROR CannotSend (s\<lparr>process := Some (p\<lparr>returncode := Some c\<rparr>)\<rparr>))
                | None \<Rightarrow>
                    (let s1 = log INFO (InjectStdin payload_str) s;
                         w = StdinWrite (payload_str @ [newline])
                     in case write_obs of
                          IoBrokenPipe \<Rightarrow>
                            (Return False, log ERROR PipeBroken (s1\<lparr>process := Some (p\<lparr>calls := calls p @ [w]\<rparr>)\<rparr>))
                        | IoOtherError \<Rightarrow> (Raise OSError, s1\<lparr>process := Some (p\<lparr>calls := calls p @ [w]\<rparr>)\<rparr>)
                        | IoOk \<Rightarrow>
                            (let s2 = s1\<lparr>process := Some (p\<lparr>calls := calls p @ [w, StdinFlush]\<rparr>)\<rparr>
                             in case flush_obs of
                                  IoBrokenPipe \<Rightarrow> (Return False, log ERROR PipeBroken s2)
                                | IoOtherError \<Rightarrow> (Raise OSError, s2)
                                | IoOk \<Rightarrow> (Return True, s2))))))"
  by (cases s; cases "process s"; cases write_obs; cases flush_obs)
     (auto simp: send_raw_def poll_def call_on_def log_def Let_def split: option.splits)

text \<open>
  Claim C6. \<^verbatim>\<open>send_raw\<close> and \<^verbatim>\<open>send_message\<close> return \<^verbatim>\<open>False\<close>, and raise nothing,
  when the wrapper was never started, when the poll finds that the child has exited, and
  when the write or the flush hits a broken pipe. Each returns \<^verbatim>\<open>True\<close> exactly when the
  child is found running and both the write of the line and the flush succeed; and in
  that case the handle has received the write of the payload with its newline, followed
  by the flush.
\<close>

theorem send_reports_failure_as_False:
  "(process s = None \<or> (\<exists>p c p'. process s = Some p \<and> poll polled p = (Some c, p'))
      \<or> write_obs = IoBrokenPipe \<or> (write_obs = IoOk \<and> flush_obs = IoBrokenPipe)
    \<longrightarrow> fst (send_raw polled write_obs flush_obs payload_str s) = Return False
        \<and> fst (send_message polled write_obs flush_obs str s) = Return False)
   \<and> (fst (send_raw polled write_obs flush_obs payload_str s) = Return True \<longleftrightarrow>
        (\<exists>p p'. process s = Some p \<and> poll polled p = (None, p'))
        \<and> write_obs = IoOk \<and> flush_obs = IoOk)
   \<and> (fst (send_message polled write_obs flush_obs str s) = Return True \<longleftrightarrow>
        (\<exists>p p'. process s = Some p \<and> poll polled p = (None, p'))
        \<and> write_obs = IoOk \<and> flush_obs = IoOk)
   \<and> (\<forall>p p'. process s = Some p \<and> poll polled p = (None, p')
           \<and> write_obs = IoOk \<and> flush_obs = IoOk \<longrightarrow>
         process (snd (send_raw polled write_obs flush_obs payload_str s))
           = Some (p\<lparr>calls := calls p @ [StdinWrite (payload_str @ [newline]), StdinFlush]\<rparr>)
         \<and> process (snd (send_message polled write_obs flush_obs str s))
           = Some (p\<lparr>calls := calls p
                        @ [StdinWrite (dumps (payload str) @ [newline]), StdinFlush]\<rparr>))"
proof -
  have raw: "\<And>x.
      (process s = None \<or> (\<exists>p c p'. process s = Some p \<and> poll polled p = (Some c, p'))
          \<or> write_obs = IoBrokenPipe \<or> (write_obs = IoOk \<and> flush_obs = IoBrokenPipe)
        \<longrightarrow> fst (send_raw polled write_obs flush_obs x s) = Return False)
      \<and> (fst (send_raw polled write_obs flush_obs x s) = Return True \<longleftrightarrow>
        (\<exists>p p'. process s = Some p \<and> poll polled p = (None, p'))
        \<and> write_obs = IoOk \<and> flush_obs = IoOk)
      \<and> (\<forall>p p'. process s = Some p \<and> poll polled p = (None, p')
           \<and> write_obs = IoOk \<and> flush_obs = IoOk \<longrightarrow>
         process (snd (send_raw polled write_obs flush_obs x s))
           = Some (p\<lparr>calls := calls p @ [StdinWrite (x @ [newline]), StdinFlush]\<rparr>))"
    by (cases "process s"; cases write_obs; cases flush_obs; cases polled)
       (auto simp: send_raw_cases poll_def log_def Let_def split: option.splits)
  from raw [of payload_str] raw [of "dumps (payload str)"]
  show ?thesis unfolding send_message_def by blast
qed

theorem send_reports_failure_as_False_witness:
  "fst (send_raw None IoOk IoOk ''{}'' fresh_wrapper) = Return False
   \<and> fst (send_message None IoOk IoOk ''hi'' fresh_wrapper) = Return False
   \<and> fst (send_raw (Some 0) IoOk IoOk ''{}'' live_wrapper) = Return False
   \<and> fst (send_message (Some 0) IoOk IoOk ''hi'' live_wrapper) = Return False
   \<and> fst (send_message None IoBrokenPipe IoOk ''hi'' live_wrapper) = Return False
   \<and> fst (send_raw None IoOk IoBrokenPipe ''{}'' live_wrapper) = Return False
   \<and> fst (send_raw None IoOk IoOk ''{}'' live_wrapper) = Return True
   \<and> fst (send_message None IoOk IoOk ''hi'' live_wrapper) = Return True
   \<and> process (snd (send_raw None IoOk IoOk ''{}'' live_wrapper))
       = Some \<lparr>returncode = None, calls = [StdinWrite (''{}'' @ [newline]), StdinFlush]\<rparr>
   \<and> process (snd (send_message None IoOk IoOk ''hi'' live_wrapper))
       = Some \<lparr>returncode = None,
               calls = [StdinWrite (dumps (payload ''hi'') @ [newline]), StdinFlush]\<rparr>"
proof -
  let ?p = "\<lparr>returncode = None, calls = []\<rparr>"
  have never: "process fresh_wrapper = None" by (simp add: run_defs)
  have live: "process live_wrapper = Some ?p" by (simp add: run_defs)
  have exited: "poll (Some 0) ?p = (Some 0, ?p\<lparr>returncode := Some 0\<rparr>)" by (simp add: poll_def)
  have runs: "poll None ?p = (None, ?p)" by (simp add: poll_def)
  from live exited
  have ex: "\<exists>p c p'. process live_wrapper = Some p \<and> poll (Some 0) p = (Some c, p')" by blast
  from live runs
  have al: "\<exists>p p'. process live_wrapper = Some p \<and> poll None p = (None, p')" by blast
  note t1 = send_reports_failure_as_False [of fresh_wrapper None IoOk IoOk "''{}''" "''hi''"]
  note t2 = send_reports_failure_as_False [of live_wrapper "Some 0" IoOk IoOk "''{}''" "''hi''"]
  note t3 = send_reports_failure_as_False [of live_wrapper None IoBrokenPipe IoOk "''{}''" "''hi''"]
  note t4 = send_reports_failure_as_False [of live_wrapper None IoOk IoBrokenPipe "''{}''" "''hi''"]
  note t5 = send_reports_failure_as_False [of live_wrapper None IoOk IoOk "''{}''" "''hi''"]
  from t1 never have 1: "fst (send_raw None IoOk IoOk ''{}'' fresh_wrapper) = Return False"
    "fst (send_message None IoOk IoOk ''hi'' fresh_wrapper) = Return False" by blast+
  from t2 ex have 2: "fst (send_raw (Some 0) IoOk IoOk ''{}'' live_wrapper) = Return False"
    "fst (send_message (Some 0) IoOk IoOk ''hi'' live_wrapper) = Return False" by blast+
  from t3 have 3: "fst (send_message None IoBrokenPipe IoOk ''hi'' live_wrapper) = Return False"
    by blast
  from t4 have 4: "fst (send_raw None IoOk IoBrokenPipe ''{}'' live_wrapper) = Return False"
    by blast
  from t5 al have 5: "fst (send_raw None IoOk IoOk ''{}'' live_wrapper) = Return True"
    "fst (send_message None IoOk IoOk ''hi'' live_wrapper) = Return True" by blast+
  from t5 [THEN conjunct2, THEN conjunct2, THEN conjunct2, rule_format, of ?p ?p] live runs
  have 6: "process (snd (send_raw None IoOk IoOk ''{}'' live_wrapper))
       = Some \<lparr>returncode = None, calls = [StdinWrite (''{}'' @ [newline]), StdinFlush]\<rparr>"
    "process (snd (send_message None IoOk IoOk ''hi'' live_wrapper))
       = Some \<lparr>returncode = None,
               calls = [StdinWrite (dumps (payload ''hi'') @ [newline]), StdinFlush]\<rparr>"
    by simp_all
  from 1 2 3 4 5 6 show ?thesis by (simp only: simp_thms)
qed

text \<open>The encoder never emits a raw newline: it escapes the one in its input.\<close>

lemma newline_not_in_hex4: "newline \<notin> set (hex4 n)"
proof
  define ds where "ds = ''0123456789abcdef''"
  assume "newline \<in> set (hex4 n)"
  then have "newline \<in> (\<lambda>k. ds ! ((n div 16 ^ k) mod 16)) ` set [3, 2, 1, 0]"
    unfolding hex4_def ds_def set_map .
  then obtain k where k: "newline = ds ! ((n div 16 ^ k) mod 16)"
    by (rule imageE)
  have "(n div 16 ^ k) mod 16 < length ds" by (simp add: ds_def)
  then have "ds ! ((n div 16 ^ k) mod 16) \<in> set ds" by (rule nth_mem)
  with k have "newline \<in> set ds" by (simp only:)
  then show False by (simp add: ds_def newline_def)
qed

lemma newline_not_in_escape_ascii: "newline \<notin> set (escape_ascii c)"
proof -
  have pr: "32 \<le> (of_char c :: nat) \<longrightarrow> newline \<noteq> c"
    by (auto simp: newline_def)
  have nl: "newline \<noteq> backslash" "newline \<noteq> dquote" "newline \<noteq> CHR ''b''"
    "newline \<noteq> CHR ''f''" "newline \<noteq> CHR ''n''" "newline \<noteq> CHR ''r''"
    "newline \<noteq> CHR ''t''" "newline \<noteq> CHR ''u''"
    by (simp_all add: newline_def backslash_def dquote_def)
  show ?thesis
    unfolding escape_ascii_def
    using newline_not_in_hex4 [of "of_char c"] pr nl by (simp split: if_splits) 
qed

lemma newline_not_in_encode_basestring_ascii: "newline \<notin> set (encode_basestring_ascii str)"
proof -
  have "newline \<noteq> dquote" by (simp add: newline_def dquote_def)
  with newline_not_in_escape_ascii show ?thesis
    by (simp add: encode_basestring_ascii_def)
qed

lemma dumps_payload:
  \<open>dumps (payload text) =
     ''{"type": "user", "message": {"role": "user", "content": [{"type": "text", "text": ''
       @ encode_basestring_ascii text @ ''}]}}''\<close>
proof -
  have enc: "encode_basestring_ascii ''type'' = [dquote] @ ''type'' @ [dquote]"
    "encode_basestring_ascii ''user'' = [dquote] @ ''user'' @ [dquote]"
    "encode_basestring_ascii ''message'' = [dquote] @ ''message'' @ [dquote]"
    "encode_basestring_ascii ''role'' = [dquote] @ ''role'' @ [dquote]"
    "encode_basestring_ascii ''content'' = [dquote] @ ''content'' @ [dquote]"
    "encode_basestring_ascii ''text'' = [dquote] @ ''text'' @ [dquote]"
    by (simp_all add: encode_basestring_ascii_def escape_ascii_def backslash_def dquote_def)
  show ?thesis
    by (simp add: payload_def enc) (simp add: dquote_def)
qed

text \<open>
  Claim C7, as stated, fails: on a wrapper whose child has exited, or that was never
  started, \<^verbatim>\<open>send_message\<close> writes nothing at all.
\<close>

theorem nothing_written_when_not_running:
  "send_message (Some 0) IoOk IoOk ''hi'' live_wrapper
     = (Return False,
        live_wrapper\<lparr>process := Some \<lparr>returncode = Some 0, calls = []\<rparr>,
          logger := [(INFO, StartingCLI ''s1'' ''default''), (ERROR, CannotSend)]\<rparr>)
   \<and> send_message None IoOk IoOk ''hi'' fresh_wrapper
     = (Return False, fresh_wrapper\<lparr>logger := [(ERROR, CannotSend)]\<rparr>)
   \<and> process fresh_wrapper = None"
  by (simp add: send_message_def send_raw_def run_defs)

text \<open>
  Claim C7, amended. For every \<open>text\<close>: when the wrapper was started and the poll finds
  the child running, \<^verbatim>\<open>send_message(text)\<close> makes exactly one write to the input pipe, of
  the JSON serialisation of the request object followed by a newline, and, when that
  write succeeds, flushes the pipe right after it; when the wrapper was never started, or
  the poll finds that the child has exited, it makes no call on the handle, so nothing is
  written. The serialisation holds no newline, so the write is one line; it is the text
  below around the encoded \<open>text\<close>.
\<close>

theorem send_message_writes_one_line:
  \<open>(\<forall>p p'. process s = Some p \<and> poll polled p = (None, p') \<longrightarrow>
       map_option calls (process (snd (send_message polled write_obs flush_obs text s)))
         = Some (calls p @ StdinWrite (dumps (payload text) @ [newline])
                   # (if write_obs = IoOk then [StdinFlush] else [])))
   \<and> (process s = None \<longrightarrow>
         process (snd (send_message polled write_obs flush_obs text s)) = None)
   \<and> (\<forall>p c p'. process s = Some p \<and> poll polled p = (Some c, p') \<longrightarrow>
         map_option calls (process (snd (send_message polled write_obs flush_obs text s)))
           = Some (calls p))
   \<and> newline \<notin> set (dumps (payload text))
   \<and> dumps (payload text) =
        ''{"type": "user", "message": {"role": "user", "content": [{"type": "text", "text": ''
          @ encode_basestring_ascii text @ ''}]}}''\<close>
proof (intro conjI allI impI)
  fix p p'
  assume "process s = Some p \<and> poll polled p = (None, p')"
  then have "process s = Some p" "returncode p = None" "polled = None"
    by (simp_all add: poll_None)
  then show "map_option calls (process (snd (send_message polled write_obs flush_obs text s)))
           = Some (calls p @ StdinWrite (dumps (payload text) @ [newline])
                     # (if write_obs = IoOk then [StdinFlush] else []))"
    by (cases write_obs; cases flush_obs) (simp_all add: send_message_def send_raw_cases log_def)
next
  assume "process s = None"
  then show "process (snd (send_message polled write_obs flush_obs text s)) = None"
    by (simp add: send_message_def send_raw_cases log_def)
next
  fix p c p'
  assume "process s = Some p \<and> poll polled p = (Some c, p')"
  then have "process s = Some p" "returncode p = Some c \<or> (returncode p = None \<and> polled = Some c)"
    by (auto simp: poll_def split: option.splits)
  then show "map_option calls (process (snd (send_message polled write_obs flush_obs text s)))
           = Some (calls p)"
    by (auto simp: send_message_def send_raw_cases log_def)
next
  show "newline \<notin> set (dumps (payload text))"
    using newline_not_in_encode_basestring_ascii [of "text"]
    by (simp add: dumps_payload) (simp add: newline_def)
next
  show \<open>dumps (payload text) =
             ''{"type": "user", "message": {"role": "user", "content": [{"type": "text", "text": ''
               @ encode_basestring_ascii text @ ''}]}}''\<close>
    by (rule dumps_payload)
qed

theorem send_message_writes_one_line_witness:
  \<open>map_option calls (process (snd (send_message None IoOk IoOk [CHR ''a'', dquote, newline] live_wrapper)))
     = Some [StdinWrite
              (''{"type": "user", "message": {"role": "user", "content": [{"type": "text", "text": "a''
                 @ [backslash, dquote, backslash] @ ''n"}]}}'' @ [newline]),
             StdinFlush]
   \<and> map_option calls (process (snd (send_message None IoBrokenPipe IoOk ''hi'' live_wrapper)))
     = Some [StdinWrite
              (''{"type": "user", "message": {"role": "user", "content": [{"type": "text", "text": "hi"}]}}''
                 @ [newline])]
   \<and> process (snd (send_message None IoOk IoOk ''hi'' fresh_wrapper)) = None
   \<and> map_option calls (process (snd (send_message (Some 0) IoOk IoOk ''hi'' live_wrapper)))
     = Some []\<close>
proof (intro conjI)
  let ?p = "\<lparr>returncode = None, calls = []\<rparr>"
  have live: "process live_wrapper = Some ?p" by (simp add: run_defs)
  have runs: "poll None ?p = (None, ?p)" by (simp add: poll_def)
  have exited: "poll (Some 0) ?p = (Some 0, ?p\<lparr>returncode := Some 0\<rparr>)" by (simp add: poll_def)
  have never: "process fresh_wrapper = None" by (simp add: run_defs)
  note w1 = send_message_writes_one_line
    [of live_wrapper None IoOk IoOk "[CHR ''a'', dquote, newline]"]
  have e1: \<open>dumps (payload [CHR ''a'', dquote, newline]) =
      ''{"type": "user", "message": {"role": "user", "content": [{"type": "text", "text": "a''
                 @ [backslash, dquote, backslash] @ ''n"}]}}''\<close>
    using w1 [THEN conjunct2, THEN conjunct2, THEN conjunct2, THEN conjunct2]
    by (simp add: encode_basestring_ascii_def escape_ascii_def backslash_def dquote_def newline_def)
  from w1 [THEN conjunct1, rule_format, of ?p ?p] live runs
  show \<open>map_option calls (process (snd (send_message None IoOk IoOk [CHR ''a'', dquote, newline] live_wrapper)))
     = Some [StdinWrite
              (''{"type": "user", "message": {"role": "user", "content": [{"type": "text", "text": "a''
                 @ [backslash, dquote, backslash] @ ''n"}]}}'' @ [newline]),
             StdinFlush]\<close>
    by (simp add: e1)
  note w2 = send_message_writes_one_line [of live_wrapper None IoBrokenPipe IoOk "''hi''"]
  have e2: \<open>dumps (payload ''hi'') =
      ''{"type": "user", "message": {"role": "user", "content": [{"type": "text", "text": "hi"}]}}''\<close>
    using w2 [THEN conjunct2, THEN conjunct2, THEN conjunct2, THEN conjunct2]
    by (simp add: encode_basestring_ascii_def escape_ascii_def backslash_def dquote_def newline_def)
  from w2 [THEN conjunct1, rule_format, of ?p ?p] live runs
  show \<open>map_option calls (process (snd (send_message None IoBrokenPipe IoOk ''hi'' live_wrapper)))
     = Some [StdinWrite
              (''{"type": "user", "message": {"role": "user", "content": [{"type": "text", "text": "hi"}]}}''
                 @ [newline])]\<close>
    by (simp add: e2)
  from send_message_writes_one_line [of fresh_wrapper None IoOk IoOk "''hi''",
      THEN conjunct2, THEN conjunct1] never
  show "process (snd (send_message None IoOk IoOk ''hi'' fresh_wrapper)) = None"
    by simp
  from send_message_writes_one_line [of live_wrapper "Some 0" IoOk IoOk "''hi''",
      THEN conjunct2, THEN conjunct2, THEN conjunct1, rule_format,
      of ?p 0 "?p\<lparr>returncode := Some 0\<rparr>"] live exited
  show "map_option calls (process (snd (send_message (Some 0) IoOk IoOk ''hi'' live_wrapper)))
     = Some []"
    by simp
qed

subsection \<open>The event log\<close>

text \<open>
  Claim C8. However a call of \<^verbatim>\<open>wait_for_result\<close> ends (success, timeout, exit of the
  child, or an exception), the event log after it is the event log before it followed by
  the events parsed from the lines the call took off the stdout queue, in the order of
  the queue; when the call returns, its events list is exactly that list of events. No
  other method changes the event log, so the log only grows.
\<close>

theorem event_log_append_only:
  "(\<forall>r s'. wait_for_result loads timeout start_time ticks s = Some (r, s') \<longrightarrow>
      (\<exists>n < length ticks. \<exists>consumed.
          consumed @ stdout_queue s' = stdout_queue s @ arrived (take (Suc n) ticks)
          \<and> event_log s' = event_log s @ parsed loads consumed
          \<and> (\<forall>ok evs. r = Return (ok, evs) \<longrightarrow> evs = parsed loads consumed)))
   \<and> event_log (snd (send_raw polled write_obs flush_obs payload_str s)) = event_log s
   \<and> event_log (snd (send_message polled write_obs flush_obs str s)) = event_log s
   \<and> event_log (snd (check_status polled s)) = event_log s
   \<and> event_log (snd (stop polled wait_obs s)) = event_log s
   \<and> event_log (snd (start permission_mode launched s)) = event_log s"
proof (intro conjI allI impI)
  fix r s'
  assume "wait_for_result loads timeout start_time ticks s = Some (r, s')"
  then have "wait_loop loads start_time timeout ticks [] (log INFO WaitingForStream s) = Some (r, s')"
    by (simp add: wait_for_result_def)
  from wait_loop_trace [OF this] obtain n c where "n < length ticks"
    "c @ stdout_queue s' = stdout_queue (log INFO WaitingForStream s) @ arrived (take (Suc n) ticks)"
    "event_log s' = event_log (log INFO WaitingForStream s) @ parsed loads c"
    "\<forall>ok evs. r = Return (ok, evs) \<longrightarrow> evs = [] @ parsed loads c"
    by blast
  then have "n < length ticks \<and> c @ stdout_queue s' = stdout_queue s @ arrived (take (Suc n) ticks)
          \<and> event_log s' = event_log s @ parsed loads c
          \<and> (\<forall>ok evs. r = Return (ok, evs) \<longrightarrow> evs = parsed loads c)"
    by (simp add: log_def)
  then show "\<exists>n < length ticks. \<exists>consumed.
          consumed @ stdout_queue s' = stdout_queue s @ arrived (take (Suc n) ticks)
          \<and> event_log s' = event_log s @ parsed loads consumed
          \<and> (\<forall>ok evs. r = Return (ok, evs) \<longrightarrow> evs = parsed loads consumed)"
    by blast
next
  have raw: "\<And>x. event_log (snd (send_raw polled write_obs flush_obs x s)) = event_log s"
    by (cases write_obs; cases flush_obs)
       (simp_all add: send_raw_cases log_def Let_def split: option.splits)
  show "event_log (snd (send_raw polled write_obs flush_obs payload_str s)) = event_log s"
    by (rule raw)
  show "event_log (snd (send_message polled write_obs flush_obs str s)) = event_log s"
    unfolding send_message_def by (rule raw)
next
  show "event_log (snd (check_status polled s)) = event_log s"
    by (simp add: check_status_def poll_def log_def split: option.splits)
next
  show "event_log (snd (stop polled wait_obs s)) = event_log s"
    by (simp add: stop_def poll_def popen_wait_def terminate_def Let_def split: option.splits)
next
  show "event_log (snd (start permission_mode launched s)) = event_log s"
    by (simp add: start_def log_def Let_def)
qed

theorem event_log_append_only_witness:
  \<open>(\<exists>s'. wait_for_result sample_loads 60 0
        [\<lparr>clock = 1, poll_obs = None,
          stdout_read = [''{"type": "ping"}'' @ [newline], ''not json'' @ [newline]]\<rparr>,
         \<lparr>clock = 2, poll_obs = None,
          stdout_read = [''{"type": "result", "duration_ms": 12}'' @ [newline]]\<rparr>,
         \<lparr>clock = 3, poll_obs = None, stdout_read = []\<rparr>]
        (live_wrapper\<lparr>event_log := [JDict [(''seq'', JInt 7)]]\<rparr>)
       = Some (Return (True, [JDict [(''type'', JStr ''ping'')],
                  JDict [(''type'', JStr ''result''), (''duration_ms'', JInt 12)]]), s')
     \<and> event_log s' = [JDict [(''seq'', JInt 7)], JDict [(''type'', JStr ''ping'')],
                  JDict [(''type'', JStr ''result''), (''duration_ms'', JInt 12)]])
   \<and> (\<exists>s'. wait_for_result sample_loads 60 0
        [\<lparr>clock = 1, poll_obs = None, stdout_read = [''{"type": "ping"}'' @ [newline]]\<rparr>,
         \<lparr>clock = 61, poll_obs = None, stdout_read = []\<rparr>]
        (live_wrapper\<lparr>event_log := [JDict [(''seq'', JInt 7)]]\<rparr>)
       = Some (Return (False, [JDict [(''type'', JStr ''ping'')]]), s')
     \<and> event_log s' = [JDict [(''seq'', JInt 7)], JDict [(''type'', JStr ''ping'')]])\<close>
proof (intro conjI)
  let ?s = \<open>live_wrapper\<lparr>event_log := [JDict [(''seq'', JInt 7)]]\<rparr>\<close>
  let ?ticks = \<open>[\<lparr>clock = 1, poll_obs = None,
          stdout_read = [''{"type": "ping"}'' @ [newline], ''not json'' @ [newline]]\<rparr>,
         \<lparr>clock = 2, poll_obs = None,
          stdout_read = [''{"type": "result", "duration_ms": 12}'' @ [newline]]\<rparr>,
         \<lparr>clock = 3, poll_obs = None, stdout_read = []\<rparr>]\<close>
  let ?evs = "[JDict [(''type'', JStr ''ping'')],
                  JDict [(''type'', JStr ''result''), (''duration_ms'', JInt 12)]]"
  have "map_option fst (wait_for_result sample_loads 60 0 ?ticks ?s) = Some (Return (True, ?evs))"
    by (simp add: wait_for_result_def run_defs)
  then obtain s' where run: "wait_for_result sample_loads 60 0 ?ticks ?s = Some (Return (True, ?evs), s')"
    by auto
  from event_log_append_only [of sample_loads 60 0 ?ticks ?s, THEN conjunct1, rule_format, OF run]
  obtain consumed where "event_log s' = event_log ?s @ parsed sample_loads consumed"
    "?evs = parsed sample_loads consumed" by blast
  then have "event_log s' = [JDict [(''seq'', JInt 7)]] @ ?evs" by simp
  with run show "\<exists>s'. wait_for_result sample_loads 60 0 ?ticks ?s = Some (Return (True, ?evs), s')
     \<and> event_log s' = [JDict [(''seq'', JInt 7)], JDict [(''type'', JStr ''ping'')],
                  JDict [(''type'', JStr ''result''), (''duration_ms'', JInt 12)]]"
    by simp
next
  let ?s = \<open>live_wrapper\<lparr>event_log := [JDict [(''seq'', JInt 7)]]\<rparr>\<close>
  let ?ticks = \<open>[\<lparr>clock = 1, poll_obs = None, stdout_read = [''{"type": "ping"}'' @ [newline]]\<rparr>,
         \<lparr>clock = 61, poll_obs = None, stdout_read = []\<rparr>]\<close>
  let ?evs = "[JDict [(''type'', JStr ''ping'')]]"
  have "map_option fst (wait_for_result sample_loads 60 0 ?ticks ?s) = Some (Return (False, ?evs))"
    by (simp add: wait_for_result_def run_defs)
  then obtain s' where run: "wait_for_result sample_loads 60 0 ?ticks ?s = Some (Return (False, ?evs), s')"
    by auto
  from event_log_append_only [of sample_loads 60 0 ?ticks ?s, THEN conjunct1, rule_format, OF run]
  obtain consumed where "event_log s' = event_log ?s @ parsed sample_loads consumed"
    "?evs = parsed sample_loads consumed" by blast
  then have "event_log s' = [JDict [(''seq'', JInt 7)]] @ ?evs" by simp
  with run show "\<exists>s'. wait_for_result sample_loads 60 0 ?ticks ?s = Some (Return (False, ?evs), s')
     \<and> event_log s' = [JDict [(''seq'', JInt 7)], JDict [(''type'', JStr ''ping'')]]"
    by simp
qed

subsection \<open>Stopping\<close>

text \<open>\<^verbatim>\<open>stop\<close> by cases on what it is shown.\<close>

lemma stop_cases:
  "stop polled wait_obs s =
     (case process s of
        None \<Rightarrow> (Return (), s\<lparr>running := False\<rparr>)
      | Some p \<Rightarrow>
          (case returncode p of
             Some c \<Rightarrow> (Return (), s\<lparr>running := False\<rparr>)
           | None \<Rightarrow>
               (case polled of
                  Some c \<Rightarrow>
                    (Return (), s\<lparr>running := False, process := Some (p\<lparr>returncode := Some c\<rparr>)\<rparr>)
                | None \<Rightarrow>
                    (case wait_obs of
                       Some c \<Rightarrow>
                         (Return (),
                          s\<lparr>running := False,
                            process := Some (p\<lparr>returncode := Some c,
                                              calls := calls p @ [Terminate, Wait 5]\<rparr>)\<rparr>)
                     | None \<Rightarrow>
                         (Raise (TimeoutExpired 5),
                          s\<lparr>running := False,
                            process := Some (p\<lparr>calls := calls p @ [Terminate, Wait 5]\<rparr>)\<rparr>)))))"
  by (cases s; cases "process s")
     (auto simp: stop_def poll_def popen_wait_def terminate_def Let_def split: option.splits)

lemma stop_returned_fixpoint:
  assumes "stop polled wait_obs s = (Return (), s1)"
  shows "stop polled' wait_obs' s1 = (Return (), s1)"
proof -
  from assms have r: "running s1 = False"
    and p: "process s1 = None \<or> (\<exists>p c. process s1 = Some p \<and> returncode p = Some c)"
    by (auto simp: stop_cases split: option.splits)
  from r have "s1\<lparr>running := False\<rparr> = s1" by (cases s1) simp
  with p show ?thesis by (auto simp: stop_cases)
qed

text \<open>
  When the child is running and does not end within the five seconds of the wait,
  \<^verbatim>\<open>stop()\<close> raises \<^verbatim>\<open>TimeoutExpired\<close>.
\<close>

lemma stop_timeout_raises:
  assumes "process s = Some p" and "poll polled p = (None, p')"
  shows "fst (stop polled None s) = Raise (TimeoutExpired 5)"
  using assms by (simp add: stop_cases poll_None)

text \<open>
  Claim C9. \<^verbatim>\<open>stop()\<close> always clears the running flag. When the poll finds the child
  running it calls \<^verbatim>\<open>terminate()\<close> and then \<^verbatim>\<open>wait(timeout=5)\<close>. On a wrapper that was
  never started, or whose child has exited, it makes no call on the handle and returns
  normally. A wrapper left by a \<^verbatim>\<open>stop()\<close> that returned is unchanged by another
  \<^verbatim>\<open>stop()\<close>, and \<^verbatim>\<open>stop()\<close> followed by \<^verbatim>\<open>stop()\<close> ends as a single \<^verbatim>\<open>stop()\<close> does.
\<close>

theorem stop_idempotent:
  "running (snd (stop polled wait_obs s)) = False
   \<and> (\<forall>p p'. process s = Some p \<and> poll polled p = (None, p') \<longrightarrow>
         map_option calls (process (snd (stop polled wait_obs s)))
           = Some (calls p @ [Terminate, Wait 5]))
   \<and> (process s = None \<or> (\<exists>p c p'. process s = Some p \<and> poll polled p = (Some c, p')) \<longrightarrow>
         fst (stop polled wait_obs s) = Return ()
         \<and> map_option calls (process (snd (stop polled wait_obs s))) = map_option calls (process s))
   \<and> (\<forall>s1. stop polled wait_obs s = (Return (), s1) \<longrightarrow>
         stop polled' wait_obs' s1 = (Return (), s1))
   \<and> seq (stop polled wait_obs) (stop polled' wait_obs') s = stop polled wait_obs s"
proof (intro conjI allI impI)
  show "running (snd (stop polled wait_obs s)) = False"
    by (simp add: stop_cases split: option.splits)
next
  fix p p'
  assume "process s = Some p \<and> poll polled p = (None, p')"
  then have "process s = Some p" "returncode p = None" "polled = None"
    by (simp_all add: poll_None)
  then show "map_option calls (process (snd (stop polled wait_obs s)))
           = Some (calls p @ [Terminate, Wait 5])"
    by (simp add: stop_cases split: option.splits)
next
  assume h: "process s = None \<or> (\<exists>p c p'. process s = Some p \<and> poll polled p = (Some c, p'))"
  then show "fst (stop polled wait_obs s) = Return ()"
    by (auto simp: stop_cases poll_def split: option.splits)
  from h show "map_option calls (process (snd (stop polled wait_obs s))) = map_option calls (process s)"
    by (auto simp: stop_cases poll_def split: option.splits)
next
  fix s1
  assume "stop polled wait_obs s = (Return (), s1)"
  then show "stop polled' wait_obs' s1 = (Return (), s1)" by (rule stop_returned_fixpoint)
next
  show "seq (stop polled wait_obs) (stop polled' wait_obs') s = stop polled wait_obs s"
  proof (cases "stop polled wait_obs s")
    case (Pair r s1)
    show ?thesis
    proof (cases r)
      case (Return u)
      with Pair have "stop polled wait_obs s = (Return (), s1)" by simp
      then show ?thesis using stop_returned_fixpoint [of polled wait_obs s s1 polled' wait_obs']
        by (simp add: seq_def)
    next
      case (Raise e)
      with Pair show ?thesis by (simp add: seq_def)
    qed
  qed
qed

theorem stop_idempotent_witness:
  "stop None (Some 0) live_wrapper
     = (Return (),
        live_wrapper\<lparr>running := False,
          process := Some \<lparr>returncode = Some 0, calls = [Terminate, Wait 5]\<rparr>\<rparr>)
   \<and> stop None None
        (live_wrapper\<lparr>running := False,
          process := Some \<lparr>returncode = Some 0, calls = [Terminate, Wait 5]\<rparr>\<rparr>)
     = (Return (),
        live_wrapper\<lparr>running := False,
          process := Some \<lparr>returncode = Some 0, calls = [Terminate, Wait 5]\<rparr>\<rparr>)
   \<and> fst (stop None None fresh_wrapper) = Return ()
   \<and> map_option calls (process (snd (stop None None fresh_wrapper))) = None
   \<and> fst (stop (Some 1) None live_wrapper) = Return ()
   \<and> map_option calls (process (snd (stop (Some 1) None live_wrapper))) = Some []"
proof -
  let ?s1 = "live_wrapper\<lparr>running := False,
          process := Some \<lparr>returncode = Some 0, calls = [Terminate, Wait 5]\<rparr>\<rparr>"
  let ?p = "\<lparr>returncode = None, calls = []\<rparr>"
  have run: "stop None (Some 0) live_wrapper = (Return (), ?s1)"
    by (simp add: stop_cases run_defs)
  from stop_idempotent [of None "Some 0" live_wrapper None None] run
  have again: "stop None None ?s1 = (Return (), ?s1)" by blast
  have "process fresh_wrapper = None" by (simp add: run_defs)
  with stop_idempotent [of None None fresh_wrapper None None]
  have never: "fst (stop None None fresh_wrapper) = Return ()"
    "map_option calls (process (snd (stop None None fresh_wrapper))) = None"
    by simp_all
  have "process live_wrapper = Some ?p \<and> poll (Some 1) ?p = (Some 1, ?p\<lparr>returncode := Some 1\<rparr>)"
    by (simp add: run_defs)
  then have "\<exists>p c p'. process live_wrapper = Some p \<and> poll (Some 1) p = (Some c, p')" by blast
  with stop_idempotent [of "Some 1" None live_wrapper None None]
  have "fst (stop (Some 1) None live_wrapper) = Return ()"
    "map_option calls (process (snd (stop (Some 1) None live_wrapper))) = map_option calls (process live_wrapper)"
    by blast+
  then have exited: "fst (stop (Some 1) None live_wrapper) = Return ()"
    "map_option calls (process (snd (stop (Some 1) None live_wrapper))) = Some []"
    by (simp_all add: run_defs)
  from run again never exited show ?thesis by simp
qed

subsection \<open>What a successful wait leaves behind\<close>

text \<open>
  Claim C10. When \<^verbatim>\<open>wait_for_result\<close> returns success, the returned events list is
  not empty and its last element is an event of type \<^verbatim>\<open>result\<close>, parsed from the last
  line the call took off the stdout queue; every line that was put on the queue behind
  that line is still on the queue when the call returns.
\<close>

theorem success_ends_with_result:
  assumes "wait_for_result loads timeout start_time ticks s = Some (Return (True, evs), s')"
  shows "evs \<noteq> [] \<and> is_result (last evs)
     \<and> (\<exists>n < length ticks. \<exists>before line.
           before @ [line] @ stdout_queue s' = stdout_queue s @ arrived (take (Suc n) ticks)
           \<and> loads line = Parsed (last evs)
           \<and> evs = parsed loads before @ [last evs])"
proof -
  from assms have "wait_loop loads start_time timeout ticks [] (log INFO WaitingForStream s)
      = Some (Return (True, evs), s')"
    by (simp add: wait_for_result_def)
  from wait_loop_trace [OF this] obtain n c where n: "n < length ticks"
    and q: "c @ stdout_queue s' = stdout_queue (log INFO WaitingForStream s) @ arrived (take (Suc n) ticks)"
    and e: "\<forall>ok evs'. Return (True, evs) = Return (ok, evs') \<longrightarrow>
              evs' = [] @ parsed loads c
              \<and> (ok \<longrightarrow> (\<exists>line event. c \<noteq> [] \<and> last c = line \<and> loads line = Parsed event
                      \<and> is_result event))"
    by blast
  from e [rule_format, of True evs] have evs: "evs = parsed loads c" and c: "c \<noteq> []"
    and "\<exists>event. loads (last c) = Parsed event \<and> is_result event"
    by simp_all
  then obtain event where l: "loads (last c) = Parsed event" and r: "is_result event" by blast
  have "parsed loads (butlast c @ [last c]) = parsed loads (butlast c) @ parsed loads [last c]"
    by (rule parsed_simps(3))
  with c evs l have evs': "evs = parsed loads (butlast c) @ [event]" by simp
  then have last: "last evs = event" and ne: "evs \<noteq> []" by simp_all
  have "stdout_queue (log INFO WaitingForStream s) = stdout_queue s" by (simp add: log_def)
  with q have "c @ stdout_queue s' = stdout_queue s @ arrived (take (Suc n) ticks)" by simp
  moreover from c have "c = butlast c @ [last c]" by simp
  ultimately have "(butlast c @ [last c]) @ stdout_queue s' = stdout_queue s @ arrived (take (Suc n) ticks)"
    by (simp only:)
  then have "butlast c @ [last c] @ stdout_queue s' = stdout_queue s @ arrived (take (Suc n) ticks)"
    by (simp only: append_assoc)
  with n l evs' last have "n < length ticks \<and> butlast c @ [last c] @ stdout_queue s'
      = stdout_queue s @ arrived (take (Suc n) ticks)
           \<and> loads (last c) = Parsed (last evs)
           \<and> evs = parsed loads (butlast c) @ [last evs]"
    by (simp only: simp_thms)
  then have "\<exists>n < length ticks. \<exists>before line.
           before @ [line] @ stdout_queue s' = stdout_queue s @ arrived (take (Suc n) ticks)
           \<and> loads line = Parsed (last evs)
           \<and> evs = parsed loads before @ [last evs]"
    by blast
  with ne r last show ?thesis by simp
qed

theorem success_ends_with_result_witness:
  \<open>map_option fst
     (wait_for_result sample_loads 60 0
        [\<lparr>clock = 1, poll_obs = None, stdout_read = []\<rparr>,
         \<lparr>clock = 2, poll_obs = None, stdout_read = [''{"seq": 7}'' @ [newline]]\<rparr>,
         \<lparr>clock = 3, poll_obs = None, stdout_read = []\<rparr>]
        (live_wrapper\<lparr>stdout_queue :=
           [''{"type": "ping"}'', ''{"type": "result", "duration_ms": 12}'',
            ''{"type": "error", "error": {"message": "boom"}}'']\<rparr>))
     = Some (Return (True, [JDict [(''type'', JStr ''ping'')],
               JDict [(''type'', JStr ''result''), (''duration_ms'', JInt 12)]]))
   \<and> map_option (\<lambda>x. stdout_queue (snd x))
     (wait_for_result sample_loads 60 0
        [\<lparr>clock = 1, poll_obs = None, stdout_read = []\<rparr>,
         \<lparr>clock = 2, poll_obs = None, stdout_read = [''{"seq": 7}'' @ [newline]]\<rparr>,
         \<lparr>clock = 3, poll_obs = None, stdout_read = []\<rparr>]
        (live_wrapper\<lparr>stdout_queue :=
           [''{"type": "ping"}'', ''{"type": "result", "duration_ms": 12}'',
            ''{"type": "error", "error": {"message": "boom"}}'']\<rparr>))
     = Some [''{"type": "error", "error": {"message": "boom"}}'', ''{"seq": 7}'']
   \<and> is_result (last [JDict [(''type'', JStr ''ping'')],
               JDict [(''type'', JStr ''result''), (''duration_ms'', JInt 12)]])\<close>
proof -
  let ?ticks = \<open>[\<lparr>clock = 1, poll_obs = None, stdout_read = []\<rparr>,
         \<lparr>clock = 2, poll_obs = None, stdout_read = [''{"seq": 7}'' @ [newline]]\<rparr>,
         \<lparr>clock = 3, poll_obs = None, stdout_read = []\<rparr>]\<close>
  let ?s = \<open>live_wrapper\<lparr>stdout_queue :=
           [''{"type": "ping"}'', ''{"type": "result", "duration_ms": 12}'',
            ''{"type": "error", "error": {"message": "boom"}}'']\<rparr>\<close>
  let ?evs = "[JDict [(''type'', JStr ''ping'')],
               JDict [(''type'', JStr ''result''), (''duration_ms'', JInt 12)]]"
  have fst: "map_option fst (wait_for_result sample_loads 60 0 ?ticks ?s)
      = Some (Return (True, ?evs))"
    by (simp add: wait_for_result_def run_defs)
  have q: \<open>map_option (\<lambda>x. stdout_queue (snd x)) (wait_for_result sample_loads 60 0 ?ticks ?s)
      = Some [''{"type": "error", "error": {"message": "boom"}}'', ''{"seq": 7}'']\<close>
    by (simp add: wait_for_result_def run_defs)
  from fst obtain s' where "wait_for_result sample_loads 60 0 ?ticks ?s
      = Some (Return (True, ?evs), s')"
    by auto
  from success_ends_with_result [OF this] have "is_result (last ?evs)" by blast
  with fst q show ?thesis by (simp only: simp_thms)
qed

end
